theory Spec2Isabelle
  imports Complex_Main
begin

section \<open>The ws adapter (src/use/ws.ts)\<close>

text \<open>
  \<open>useServer(options, ws, keepAlive)\<close> attaches the protocol server to a \<open>ws\<close> socket
  server.  Everything the adapter does is an effect on a socket, on the socket server, on the
  runtime's timers or on the console, so the model threads an explicit state through the
  handlers and records every effect, in order, in a trace of \<open>action\<close>s.
\<close>

subsection \<open>Values\<close>

text \<open>A JavaScript number, as far as \<open>keepAlive > 0 && isFinite(keepAlive)\<close> reads it.\<close>

datatype js_number = Num real | PosInfinity | NegInfinity | NaN

fun gt_zero :: "js_number \<Rightarrow> bool" where
  "gt_zero (Num r) = (0 < r)"
| "gt_zero PosInfinity = True"
| "gt_zero NegInfinity = False"
| "gt_zero NaN = False"

fun isFinite :: "js_number \<Rightarrow> bool" where
  "isFinite (Num r) = True"
| "isFinite PosInfinity = False"
| "isFinite NegInfinity = False"
| "isFinite NaN = False"

text \<open>\<open>socket.readyState\<close>, one of the four constants of the \<open>ws\<close> socket.\<close>

datatype ready_state = CONNECTING | OPEN | CLOSING | CLOSED

text \<open>
  An \<open>Error\<close> object, by its \<open>message\<close>.  This is what \<open>client.close\<close>, \<open>socket.send\<close>'s
  callback and \<open>ws.close\<close>'s callback produce (\<open>firstErr: Error | null\<close>); absence is
  \<open>None\<close>.
\<close>

datatype js_error = Error string

text \<open>
  A value emitted with an \<open>'error'\<close> event or thrown by the message callback: the code asks
  \<open>err instanceof Error\<close>, so a value is either an \<open>Error\<close> object or something else, which
  is kept as the string \<open>String(err)\<close> makes of it.
\<close>

datatype thrown = ErrorObj js_error | NonError string

fun error_text :: "thrown \<Rightarrow> string" where
  "error_text (ErrorObj (Error message)) = message"
| "error_text (NonError str) = str"

subsection \<open>Effects\<close>

datatype timer_kind = PongWait | PingInterval

datatype console_message =
    ServerInternalError
  | SocketInternalError
  | MessageHandlingError

datatype action =
    ConsoleError console_message thrown
  | SocketClose nat string
  | SocketTerminate
  | SocketPing
  | SocketSend string
  | OncePong
  | SetTimeout nat js_number
  | SetInterval nat js_number
  | ClearTimeout nat
  | ClearInterval nat
  | CallCb string
  | CallClosed nat string
  | ClientClose nat nat string
  | Rethrow js_error
  | RemoveAllListeners
  | ServerClose

subsection \<open>Close code and close reason of an internal error\<close>

text \<open>
  Modelled from the spec: the enum \<open>CloseCode\<close> of common.ts is missing; the
  spec's table of close codes gives \<open>4500 InternalServerError\<close>.
\<close>

definition InternalServerError :: nat where
  "InternalServerError = 4500"

text \<open>\<open>const isProd = process.env.NODE_ENV === 'production'\<close>; the variable may be unset.\<close>

definition isProd :: "string option \<Rightarrow> bool" where
  "isProd node_env = (node_env = Some ''production'')"

text \<open>
  The reason all three error handlers pass to \<open>close\<close>.  \<open>limitCloseReason\<close> is imported
  from utils.ts, which is missing: it is a parameter here.
\<close>

definition close_reason ::
  "string option \<Rightarrow> (string \<Rightarrow> string \<Rightarrow> string) \<Rightarrow> thrown \<Rightarrow> string" where
  "close_reason node_env limitCloseReason err =
     (if isProd node_env then ''Internal server error''
      else limitCloseReason (error_text err) ''Internal server error'')"

subsection \<open>The socket server's handlers\<close>

text \<open>
  A member of \<open>ws.clients\<close>: an identity and what its \<open>close(code, reason)\<close> does when
  called, return (\<open>None\<close>) or throw.
\<close>

record client =
  cid :: nat
  close_throws :: "nat \<Rightarrow> string \<Rightarrow> js_error option"

text \<open>
  The loop of the \<open>ws.once('error')\<close> handler: every client's \<open>close\<close> is called inside
  \<open>try\<close>, and \<open>firstErr = firstErr ?? err\<close> keeps the first exception.
\<close>

fun close_clients ::
  "nat \<Rightarrow> string \<Rightarrow> client list \<Rightarrow> js_error option \<Rightarrow> action list \<times> js_error option" where
  "close_clients code reason [] firstErr = ([], firstErr)"
| "close_clients code reason (c # cs) firstErr =
     (let firstErr' =
            (case close_throws c code reason of
               None \<Rightarrow> firstErr
             | Some err \<Rightarrow> (case firstErr of None \<Rightarrow> Some err | Some f \<Rightarrow> Some f));
          (acts, res) = close_clients code reason cs firstErr'
      in (ClientClose (cid c) code reason # acts, res))"

text \<open>
  The handler itself: its effects in order, the last of them \<open>throw firstErr\<close> when an
  exception was kept (\<open>if (firstErr) throw firstErr\<close>).
\<close>

definition server_error_handler ::
  "string option \<Rightarrow> (string \<Rightarrow> string \<Rightarrow> string) \<Rightarrow> thrown \<Rightarrow> client list \<Rightarrow> action list" where
  "server_error_handler node_env limitCloseReason err clients =
     (let (acts, firstErr) =
            close_clients InternalServerError
              (close_reason node_env limitCloseReason err) clients None
      in ConsoleError ServerInternalError err # acts @
         (case firstErr of None \<Rightarrow> [] | Some e \<Rightarrow> [Rethrow e]))"

text \<open>
  \<open>dispose\<close>.  Its loop has no \<open>try\<close>: a \<open>close\<close> that throws ends the loop and rejects
  the promise of the \<open>async\<close> function there.
\<close>

fun dispose_clients :: "client list \<Rightarrow> action list \<times> js_error option" where
  "dispose_clients [] = ([], None)"
| "dispose_clients (c # cs) =
     (case close_throws c 1001 ''Going away'' of
        Some err \<Rightarrow> ([ClientClose (cid c) 1001 ''Going away''], Some err)
      | None \<Rightarrow>
          (let (acts, res) = dispose_clients cs
           in (ClientClose (cid c) 1001 ''Going away'' # acts, res)))"

text \<open>
  How a promise stands: \<open>ws.close(cb)\<close> calls \<open>cb\<close> when the server has closed, with an
  error or without one, or has not called it (yet).
\<close>

datatype callback = NotCalled | Called "js_error option"

datatype promise = Pending | Resolved | Rejected js_error

definition dispose :: "client list \<Rightarrow> callback \<Rightarrow> action list \<times> promise" where
  "dispose clients server_closed =
     (case dispose_clients clients of
        (acts, Some err) \<Rightarrow> (acts, Rejected err)
      | (acts, None) \<Rightarrow>
          (acts @ [RemoveAllListeners, ServerClose],
           (case server_closed of
              NotCalled \<Rightarrow> Pending
            | Called None \<Rightarrow> Resolved
            | Called (Some err) \<Rightarrow> Rejected err)))"

subsection \<open>The socket's handlers\<close>

text \<open>
  \<open>send\<close>, as handed to the protocol server: \<open>transmitted\<close> is what \<open>socket.send\<close> does
  with its callback.
\<close>

definition send :: "ready_state \<Rightarrow> string \<Rightarrow> callback \<Rightarrow> action list \<times> promise" where
  "send state data transmitted =
     (if state \<noteq> OPEN then ([], Resolved)
      else ([SocketSend data],
            (case transmitted of
               NotCalled \<Rightarrow> Pending
             | Called None \<Rightarrow> Resolved
             | Called (Some err) \<Rightarrow> Rejected err)))"

text \<open>The \<open>socket.once('error')\<close> handler.\<close>

definition socket_error_handler ::
  "string option \<Rightarrow> (string \<Rightarrow> string \<Rightarrow> string) \<Rightarrow> thrown \<Rightarrow> action list" where
  "socket_error_handler node_env limitCloseReason err =
     [ConsoleError SocketInternalError err,
      SocketClose InternalServerError (close_reason node_env limitCloseReason err)]"

text \<open>
  The \<open>socket.on('message')\<close> handler: \<open>outcome\<close> is how \<open>await cb(String(event))\<close>
  ended, returning (\<open>None\<close>) or throwing.
\<close>

definition message_handler ::
  "string option \<Rightarrow> (string \<Rightarrow> string \<Rightarrow> string) \<Rightarrow> string \<Rightarrow> thrown option \<Rightarrow> action list" where
  "message_handler node_env limitCloseReason data outcome =
     CallCb data #
     (case outcome of
        None \<Rightarrow> []
      | Some err \<Rightarrow>
          [ConsoleError MessageHandlingError err,
           SocketClose InternalServerError (close_reason node_env limitCloseReason err)])"

subsection \<open>One connection\<close>

text \<open>
  The state of one run of the \<open>ws.on('connection')\<close> callback: the socket's \<open>readyState\<close>,
  the two variables \<open>pongWait\<close> and \<open>pingInterval\<close> (a timer's handle is its number), the
  runtime's timers that are scheduled and not cleared, the number of \<open>once('pong')\<close>
  listeners registered, whether the \<open>once('error')\<close> and \<open>once('close')\<close> listeners are
  still registered, and the effects so far.

  Every timer of the adapter is scheduled with the same delay, \<open>keepAlive\<close>, and the runtime
  runs timers of equal delay in the order they were scheduled: \<open>timers\<close> is that queue, the
  next timer to run at its head.  An interval is scheduled again when its callback has
  returned, so a timeout set inside the callback stands before it.
\<close>

record conn =
  readyState :: ready_state
  pongWait :: "nat option"
  pingInterval :: "nat option"
  timers :: "(nat \<times> timer_kind \<times> js_number) list"
  fresh :: nat
  pongListeners :: nat
  errorListener :: bool
  closeListener :: bool
  trace :: "action list"

text \<open>\<open>clearTimeout\<close> and \<open>clearInterval\<close>: the timer leaves the queue, if it is there.\<close>

definition clear_timer ::
  "nat \<Rightarrow> (nat \<times> timer_kind \<times> js_number) list \<Rightarrow> (nat \<times> timer_kind \<times> js_number) list" where
  "clear_timer t ts = filter (\<lambda>e. fst e \<noteq> t) ts"

text \<open>
  The connection callback up to \<open>socket.once('close', ...)\<close>: \<open>pongWait = null\<close>, and the
  interval is set only when \<open>keepAlive > 0 && isFinite(keepAlive)\<close>.
\<close>

definition on_connection :: "js_number \<Rightarrow> ready_state \<Rightarrow> conn" where
  "on_connection keepAlive state =
     (if gt_zero keepAlive \<and> isFinite keepAlive
      then \<lparr>readyState = state, pongWait = None, pingInterval = Some 0,
            timers = [(0, PingInterval, keepAlive)], fresh = 1, pongListeners = 0,
            errorListener = True, closeListener = True,
            trace = [SetInterval 0 keepAlive]\<rparr>
      else \<lparr>readyState = state, pongWait = None, pingInterval = None,
            timers = [], fresh = 0, pongListeners = 0,
            errorListener = True, closeListener = True,
            trace = []\<rparr>)"

text \<open>The interval's callback: on an open socket, set the timeout, listen for one pong, ping.\<close>

definition interval_callback :: "js_number \<Rightarrow> conn \<Rightarrow> conn" where
  "interval_callback keepAlive c =
     (if readyState c = OPEN
      then c\<lparr>pongWait := Some (fresh c),
             timers := timers c @ [(fresh c, PongWait, keepAlive)],
             fresh := Suc (fresh c),
             pongListeners := Suc (pongListeners c),
             trace := trace c @ [SetTimeout (fresh c) keepAlive, OncePong, SocketPing]\<rparr>
      else c)"

text \<open>
  The timer at the head of the queue runs.  The timeout's callback is
  \<open>socket.terminate()\<close>; a timeout runs once, an interval is scheduled again.
\<close>

definition timer_fires :: "js_number \<Rightarrow> conn \<Rightarrow> conn" where
  "timer_fires keepAlive c =
     (case timers c of
        [] \<Rightarrow> c
      | (t, kind, delay) # rest \<Rightarrow>
          (case kind of
             PongWait \<Rightarrow> c\<lparr>timers := rest, trace := trace c @ [SocketTerminate]\<rparr>
           | PingInterval \<Rightarrow>
               (let c' = interval_callback keepAlive (c\<lparr>timers := rest\<rparr>)
                in c'\<lparr>timers := timers c' @ [(t, PingInterval, delay)]\<rparr>)))"

text \<open>One \<open>once('pong')\<close> listener: \<open>if (pongWait) { clearTimeout(pongWait); pongWait = null; }\<close>.\<close>

definition pong_listener :: "conn \<Rightarrow> conn" where
  "pong_listener c =
     (case pongWait c of
        None \<Rightarrow> c
      | Some t \<Rightarrow> c\<lparr>pongWait := None, timers := clear_timer t (timers c),
                    trace := trace c @ [ClearTimeout t]\<rparr>)"

text \<open>A pong frame arrives: every registered listener runs, once, and is gone.\<close>

definition on_pong :: "conn \<Rightarrow> conn" where
  "on_pong c = ((pong_listener ^^ pongListeners c) c)\<lparr>pongListeners := 0\<rparr>"

text \<open>
  The \<open>socket.once('close')\<close> handler: both timers are cleared, then \<open>closed\<close> is called.
  \<open>pongWait\<close> keeps its value.
\<close>

definition on_close :: "nat \<Rightarrow> string \<Rightarrow> conn \<Rightarrow> conn" where
  "on_close code reason c =
     (if closeListener c
      then (let c1 = (case pongWait c of
                        None \<Rightarrow> c
                      | Some t \<Rightarrow> c\<lparr>timers := clear_timer t (timers c),
                                    trace := trace c @ [ClearTimeout t]\<rparr>);
                c2 = (case pingInterval c1 of
                        None \<Rightarrow> c1
                      | Some i \<Rightarrow> c1\<lparr>timers := clear_timer i (timers c1),
                                     trace := trace c1 @ [ClearInterval i]\<rparr>)
            in c2\<lparr>closeListener := False, trace := trace c2 @ [CallClosed code reason]\<rparr>)
      else c)"

text \<open>
  What can happen to a connection: a timer runs, a pong frame arrives, the socket closes,
  the socket emits an error, a message arrives (and the server's callback returns or throws),
  the server sends (and the socket transmits or fails), the socket changes its state.
\<close>

datatype event =
    TimerFires
  | PongFrame
  | SocketClosed nat string
  | SocketError thrown
  | SocketMessage string "thrown option"
  | SendCalled string callback
  | ReadyState ready_state

fun step ::
  "string option \<Rightarrow> (string \<Rightarrow> string \<Rightarrow> string) \<Rightarrow> js_number \<Rightarrow> event \<Rightarrow> conn \<Rightarrow> conn" where
  "step node_env lcr keepAlive TimerFires c = timer_fires keepAlive c"
| "step node_env lcr keepAlive PongFrame c = on_pong c"
| "step node_env lcr keepAlive (SocketClosed code reason) c = on_close code reason c"
| "step node_env lcr keepAlive (SocketError err) c =
     (if errorListener c
      then c\<lparr>errorListener := False,
             trace := trace c @ socket_error_handler node_env lcr err\<rparr>
      else c)"
| "step node_env lcr keepAlive (SocketMessage data outcome) c =
     c\<lparr>trace := trace c @ message_handler node_env lcr data outcome\<rparr>"
| "step node_env lcr keepAlive (SendCalled data transmitted) c =
     c\<lparr>trace := trace c @ fst (send (readyState c) data transmitted)\<rparr>"
| "step node_env lcr keepAlive (ReadyState state) c = c\<lparr>readyState := state\<rparr>"

fun run ::
  "string option \<Rightarrow> (string \<Rightarrow> string \<Rightarrow> string) \<Rightarrow> js_number \<Rightarrow> event list \<Rightarrow> conn \<Rightarrow> conn" where
  "run node_env lcr keepAlive [] c = c"
| "run node_env lcr keepAlive (e # es) c =
     run node_env lcr keepAlive es (step node_env lcr keepAlive e c)"

text \<open>The actions that create a timer.\<close>

fun creates_timer :: "action \<Rightarrow> bool" where
  "creates_timer (SetTimeout t d) = True"
| "creates_timer (SetInterval t d) = True"
| "creates_timer a = False"

text \<open>
  What holds of a connection whatever happens to it.  The queue of timers is empty, or the
  close listener is still there and the queue is the interval alone, or the timeout that
  \<open>pongWait\<close> holds followed by the interval; the interval's handle is the first one
  handed out, and a handle in \<open>pongWait\<close> is a later one.
\<close>

definition keep_alive_inv :: "js_number \<Rightarrow> conn \<Rightarrow> bool" where
  "keep_alive_inv keepAlive c \<longleftrightarrow>
     (\<forall>t. pongWait c = Some t \<longrightarrow> 0 < t \<and> t < fresh c) \<and>
     (timers c = [] \<or>
      (closeListener c \<and> pingInterval c = Some 0 \<and> 0 < fresh c \<and>
       (timers c = [(0, PingInterval, keepAlive)] \<or>
        (\<exists>t. pongWait c = Some t \<and> 0 < pongListeners c \<and>
             timers c = [(t, PongWait, keepAlive), (0, PingInterval, keepAlive)]))))"

text \<open>A connection without keep-alive: no timer, no handle, none ever created.\<close>

definition idle :: "conn \<Rightarrow> bool" where
  "idle c \<longleftrightarrow>
     timers c = [] \<and> pingInterval c = None \<and> pongWait c = None \<and>
     filter creates_timer (trace c) = []"

section \<open>The protocol server (server.ts)\<close>

text \<open>
  \<open>handleProtocols\<close> and \<open>makeServer\<close> are imported from server.ts.  The repository's
  tests of that file and the adapter that calls it are at hand, the file itself is
  missing: this section is modelled from the specification.
\<close>

subsection \<open>Subprotocol negotiation\<close>

text \<open>
  Modelled from the spec: the constant \<open>GRAPHQL_TRANSPORT_WS_PROTOCOL\<close> of common.ts is
  missing; the spec names the token \<open>graphql-transport-ws\<close>.
\<close>

definition GRAPHQL_TRANSPORT_WS_PROTOCOL :: string where
  "GRAPHQL_TRANSPORT_WS_PROTOCOL = ''graphql-transport-ws''"

text \<open>
  Modelled from the spec: the argument of \<open>handleProtocols\<close> (server.ts is missing).  The
  spec (4.B) has a set of strings, a list of strings, one string, or anything else; the
  test passes an object, a number, \<open>null\<close>, \<open>undefined\<close> and a function.
\<close>

datatype js_other = AnObject | ANumber | ABoolean | Null | Undefined | AFunction

datatype protocols =
    ProtocolSet "string set"
  | ProtocolArray "string list"
  | ProtocolString string
  | NoProtocols js_other

text \<open>
  Modelled from the spec: the comma-split of \<open>handleProtocols\<close> (server.ts is missing).
  The string is cut at every comma: \<open>n\<close> commas give \<open>n + 1\<close> pieces, empty ones included.
\<close>

fun split_commas :: "string \<Rightarrow> string list" where
  "split_commas [] = [[]]"
| "split_commas (c # cs) =
     (if c = CHR '','' then [] # split_commas cs
      else (case split_commas cs of
              [] \<Rightarrow> [[c]]
            | piece # pieces \<Rightarrow> (c # piece) # pieces))"

text \<open>
  Modelled from the spec: the trimming of surrounding white space (server.ts is missing).
  White space, among the characters of a byte string: space, tab, LF, VT, FF, CR.
\<close>

definition is_space :: "char \<Rightarrow> bool" where
  "is_space c = (c \<in> {CHR '' '', CHR 0x09, CHR 0x0A, CHR 0x0B, CHR 0x0C, CHR 0x0D})"

definition trim :: "string \<Rightarrow> string" where
  "trim s = rev (dropWhile is_space (rev (dropWhile is_space s)))"

text \<open>
  Modelled from the spec: \<open>handleProtocols\<close> of server.ts is missing.  The spec (4.B): the
  accepted forms are a set of strings, a list of strings, or a comma-separated string;
  anything else is no match; tokens are compared by exact string equality after trimming
  surrounding white space on comma-split strings; the token is selected wherever it
  stands.  \<open>None\<close> is the no-match value \<open>false\<close>.
\<close>

fun handleProtocols :: "protocols \<Rightarrow> string option" where
  "handleProtocols (ProtocolSet offered) =
     (if GRAPHQL_TRANSPORT_WS_PROTOCOL \<in> offered
      then Some GRAPHQL_TRANSPORT_WS_PROTOCOL else None)"
| "handleProtocols (ProtocolArray offered) =
     (if GRAPHQL_TRANSPORT_WS_PROTOCOL \<in> set offered
      then Some GRAPHQL_TRANSPORT_WS_PROTOCOL else None)"
| "handleProtocols (ProtocolString offered) =
     (if GRAPHQL_TRANSPORT_WS_PROTOCOL \<in> set (map trim (split_commas offered))
      then Some GRAPHQL_TRANSPORT_WS_PROTOCOL else None)"
| "handleProtocols (NoProtocols other) = None"

text \<open>
  Modelled from the spec: what an exact member after split and trim (8, property 5) says
  of the string itself, without the two functions: the token stands in the string between
  two commas (or an end of the string), with nothing but white space around it.
\<close>

definition token_between_commas :: "string \<Rightarrow> string \<Rightarrow> bool" where
  "token_between_commas token s =
     (\<exists>before l r after.
        s = before @ l @ token @ r @ after \<and>
        (before = [] \<or> last before = CHR '','') \<and>
        (after = [] \<or> hd after = CHR '','') \<and>
        list_all is_space l \<and> list_all is_space r)"

subsection \<open>The subscription registry and the orchestrator\<close>

text \<open>
  Modelled from the spec: \<open>makeServer\<close> of server.ts is missing.  The spec's data model (3):
  the context holds \<open>connectionInitReceived\<close>, \<open>acknowledged\<close> and \<open>subscriptions\<close>, a map
  from operation id to a reservation or a running producer (\<open>connectionParams\<close> and \<open>extra\<close>
  are opaque to the transport and left out).  Payloads are opaque too: strings.
\<close>

datatype entry = Reservation | RunningProducer

record Context =
  connectionInitReceived :: bool
  acknowledged :: bool
  subscriptions :: "string \<rightharpoonup> entry"

text \<open>
  Modelled from the spec: the context \<open>opened\<close> creates with the socket (3, 4.D): nothing
  received, nothing acknowledged, no subscription.
\<close>

definition opened :: Context where
  "opened = \<lparr>connectionInitReceived = False, acknowledged = False, subscriptions = Map.empty\<rparr>"

text \<open>
  Modelled from the spec: the registry's operations (4.E).  \<open>reserve\<close> inserts the sentinel,
  or returns DUPLICATE without mutating; \<open>install\<close> replaces the sentinel with the running
  producer; \<open>drop\<close> removes the entry and says whether a running producer was there.
\<close>

datatype registry_error = DUPLICATE

definition reserve :: "string \<Rightarrow> (string \<rightharpoonup> entry) \<Rightarrow> registry_error + (string \<rightharpoonup> entry)" where
  "reserve oid reg =
     (case reg oid of
        Some e \<Rightarrow> Inl DUPLICATE
      | None \<Rightarrow> Inr (reg(oid \<mapsto> Reservation)))"

definition install :: "string \<Rightarrow> (string \<rightharpoonup> entry) \<Rightarrow> (string \<rightharpoonup> entry)" where
  "install oid reg = reg(oid \<mapsto> RunningProducer)"

definition drop_entry :: "string \<Rightarrow> (string \<rightharpoonup> entry) \<Rightarrow> (string \<rightharpoonup> entry) \<times> bool" where
  "drop_entry oid reg = (reg(oid := None), reg oid = Some RunningProducer)"

text \<open>
  Modelled from the spec: the server's messages (3) and what the orchestrator of
  \<open>makeServer\<close> (server.ts is missing) does to the world: emit a message, close the socket,
  start a producer, invoke its \<open>stop\<close>, await it, or let an error leave the message
  callback as its rejection.
\<close>

datatype server_message =
    ConnectionAck "string option"
  | Next string string
  | ErrorMessage string string
  | Complete string

datatype effect =
    Emit server_message
  | Close nat string
  | StartProducer string
  | InvokeStop string
  | AwaitStop string
  | Reject string

fun message_id :: "server_message \<Rightarrow> string option" where
  "message_id (ConnectionAck payload) = None"
| "message_id (Next oid payload) = Some oid"
| "message_id (ErrorMessage oid payload) = Some oid"
| "message_id (Complete oid) = Some oid"

text \<open>
  Modelled from the spec: an outbound message for the operation \<open>oid\<close> is a \<open>next\<close>, an
  \<open>error\<close> or a \<open>complete\<close> that carries this id (3).
\<close>

fun outbound_for :: "string \<Rightarrow> effect \<Rightarrow> bool" where
  "outbound_for oid (Emit m) = (message_id m = Some oid)"
| "outbound_for oid out = False"

text \<open>
  Modelled from the spec: what reaches the orchestrator of \<open>makeServer\<close> (server.ts is
  missing), inbound messages (with what the user's hook answered) and what a producer does
  (4.G).  \<open>Prepared oid r\<close>: \<open>onSubscribe\<close> has returned an error payload
  (\<open>Some\<close>), or it has not and the factory has returned the producer.  \<open>StartResolved oid r\<close>:
  the producer's \<open>start\<close> has resolved, with nothing or with an error payload.
  \<open>StartRejected oid reason\<close>: it has rejected, and \<open>reason\<close> is the text of the error.
\<close>

datatype connect_result = Refuse | Accept "string option"

datatype inbound =
    ConnectionInit connect_result
  | Subscribe string
  | Prepared string "string option"
  | ProducerEmits string string
  | StartResolved string "string option"
  | StartRejected string string
  | ClientComplete string

text \<open>
  Modelled from the spec: the dispatch of \<open>makeServer\<close> (4.D, 4.G, 5).  A second
  \<open>connection_init\<close> closes with 4429, a refused one with 4403; \<open>subscribe\<close> before the
  acknowledgement closes with 4401, with an id the registry holds with 4409; \<open>next\<close>,
  \<open>error\<close> and the server's \<open>complete\<close> for an id are emitted only while the registry
  holds it (3, invariants); a client's \<open>complete\<close> drops the id, stops the producer if
  there was one and awaits it, and emits nothing.

  A rejected \<open>start\<close> always drops the id, and if the registry still holds the id the
  error leaves the message callback: the callback rejects.  The spec has \<open>emit 4500 close\<close>
  here and, in 7, \<open>within a single inbound handler, any thrown error causes the connection
  to close with 4500\<close>; the repository's test of this path hands the server a
  socket whose \<open>close\<close> must not be called and expects the callback of the \<open>subscribe\<close> to
  throw.  So the server itself does not call \<open>close\<close>: the 4500 close is what the caller of
  the callback makes of the rejection, as the ws adapter does (\<open>message_handler\<close>).
\<close>

fun handle :: "inbound \<Rightarrow> Context \<Rightarrow> Context \<times> effect list" where
  "handle (ConnectionInit answer) ctx =
     (if connectionInitReceived ctx
      then (ctx, [Close 4429 ''Too many initialisation requests''])
      else (case answer of
              Refuse \<Rightarrow> (ctx\<lparr>connectionInitReceived := True\<rparr>, [Close 4403 ''Forbidden''])
            | Accept payload \<Rightarrow>
                (ctx\<lparr>connectionInitReceived := True, acknowledged := True\<rparr>,
                 [Emit (ConnectionAck payload)])))"
| "handle (Subscribe oid) ctx =
     (if \<not> acknowledged ctx then (ctx, [Close 4401 ''Unauthorized''])
      else (case reserve oid (subscriptions ctx) of
              Inl DUPLICATE \<Rightarrow>
                (ctx, [Close 4409 (''Subscriber for '' @ oid @ '' already exists'')])
            | Inr reg \<Rightarrow> (ctx\<lparr>subscriptions := reg\<rparr>, [])))"
| "handle (Prepared oid answer) ctx =
     (if subscriptions ctx oid = Some Reservation
      then (case answer of
              Some errors \<Rightarrow>
                (ctx\<lparr>subscriptions := fst (drop_entry oid (subscriptions ctx))\<rparr>,
                 [Emit (ErrorMessage oid errors)])
            | None \<Rightarrow>
                (ctx\<lparr>subscriptions := install oid (subscriptions ctx)\<rparr>, [StartProducer oid]))
      else (ctx, []))"
| "handle (ProducerEmits oid payload) ctx =
     (if subscriptions ctx oid \<noteq> None then (ctx, [Emit (Next oid payload)]) else (ctx, []))"
| "handle (StartResolved oid answer) ctx =
     (ctx\<lparr>subscriptions := fst (drop_entry oid (subscriptions ctx))\<rparr>,
      (if subscriptions ctx oid \<noteq> None
       then (case answer of
               None \<Rightarrow> [Emit (Complete oid)]
             | Some errors \<Rightarrow> [Emit (ErrorMessage oid errors)])
       else []))"
| "handle (StartRejected oid reason) ctx =
     (ctx\<lparr>subscriptions := fst (drop_entry oid (subscriptions ctx))\<rparr>,
      (if subscriptions ctx oid \<noteq> None then [Reject reason] else []))"
| "handle (ClientComplete oid) ctx =
     (ctx\<lparr>subscriptions := fst (drop_entry oid (subscriptions ctx))\<rparr>,
      (if snd (drop_entry oid (subscriptions ctx)) then [InvokeStop oid, AwaitStop oid] else []))"

text \<open>
  Modelled from the spec: inbound messages are processed strictly in arrival order (5); a
  sequence of them, one after the other, gives the last context and all that was done.
\<close>

fun handle_all :: "inbound list \<Rightarrow> Context \<Rightarrow> Context \<times> effect list" where
  "handle_all [] ctx = (ctx, [])"
| "handle_all (e # es) ctx =
     (let (ctx', outs) = handle e ctx;
          (ctx'', outs') = handle_all es ctx'
      in (ctx'', outs @ outs'))"

subsection \<open>The server on a socket\<close>

text \<open>
  Modelled from the spec: the socket handed to \<open>opened\<close> (4.G, server.ts is missing), as far
  as the server can tell what it does: \<open>send(data)\<close> settles when written (\<open>None\<close>) or fails,
  and \<open>close(code, reason)\<close> closes the socket, so that \<open>closed\<close> will be called, or does
  not.  The socket of the repository's test does nothing in \<open>send\<close> and closes nothing.
\<close>

record socket =
  sock_send :: "server_message \<Rightarrow> js_error option"
  sock_close :: "nat \<Rightarrow> string \<Rightarrow> bool"

definition noop_socket :: socket where
  "noop_socket = \<lparr>sock_send = (\<lambda>m. None), sock_close = (\<lambda>code reason. False)\<rparr>"

text \<open>
  Modelled from the spec: the calls made on the socket while the effects of one step are
  carried out, in order (4.G; 7: a send that fails is an error of the handler).  The
  result is the calls, how the message callback settles (\<open>None\<close> when it returns, the
  error's text when it rejects), and whether a \<open>close\<close> among the calls closed the socket.
  A failed \<open>send\<close> and a \<open>Reject\<close> end the callback there.
\<close>

datatype socket_call = Sends server_message | Closes nat string

fun perform :: "socket \<Rightarrow> effect list \<Rightarrow> socket_call list \<times> string option \<times> bool" where
  "perform socket [] = ([], None, False)"
| "perform socket (Emit m # rest) =
     (case sock_send socket m of
        Some (Error message) \<Rightarrow> ([Sends m], Some message, False)
      | None \<Rightarrow>
          (let (calls, outcome, closing) = perform socket rest
           in (Sends m # calls, outcome, closing)))"
| "perform socket (Close code reason # rest) =
     (let (calls, outcome, closing) = perform socket rest
      in (Closes code reason # calls, outcome, closing \<or> sock_close socket code reason))"
| "perform socket (Reject reason # rest) = ([], Some reason, False)"
| "perform socket (StartProducer oid # rest) = perform socket rest"
| "perform socket (InvokeStop oid # rest) = perform socket rest"
| "perform socket (AwaitStop oid # rest) = perform socket rest"

text \<open>
  Modelled from the spec: \<open>closed\<close>, the cleanup after the socket has closed (4.G, 4.E):
  every id of the registry's snapshot is dropped, and a producer that was running is
  stopped and awaited (the user's hooks are left out).  The registry is a map, which does
  not list its keys: the snapshot of the ids is an argument.
\<close>

fun closed_callback :: "string list \<Rightarrow> Context \<Rightarrow> Context \<times> effect list" where
  "closed_callback [] ctx = (ctx, [])"
| "closed_callback (oid # ids) ctx =
     (let (ctx', effects) =
            closed_callback ids (ctx\<lparr>subscriptions := fst (drop_entry oid (subscriptions ctx))\<rparr>)
      in (ctx',
          (if snd (drop_entry oid (subscriptions ctx)) then [InvokeStop oid, AwaitStop oid]
           else []) @ effects))"

text \<open>
  What the caller of the message callback does when the callback rejects: nothing, or a
  \<open>close\<close> with a code and a reason.  The ws adapter closes with what its \<open>catch\<close> passes to
  \<open>socket.close\<close> (\<open>message_handler\<close>); the repository's test only catches.
\<close>

definition adapter_catch ::
  "string option \<Rightarrow> (string \<Rightarrow> string \<Rightarrow> string) \<Rightarrow> string \<Rightarrow> (nat \<times> string) option" where
  "adapter_catch node_env limitCloseReason reason =
     (case [(code, why).
              SocketClose code why \<leftarrow>
                message_handler node_env limitCloseReason [] (Some (ErrorObj (Error reason)))] of
        [] \<Rightarrow> None
      | closing # others \<Rightarrow> Some closing)"

text \<open>
  Modelled from the spec: one step of the server on a socket (4.G, 5, 7).  The
  orchestrator's effects are carried out on the socket; if the callback rejects, its caller
  reacts; if a \<open>close\<close> of either closed the socket, the close pipeline runs and \<open>closed\<close>
  cleans up.  The result is the context, the calls made on the socket, and how the
  callback settled.
\<close>

definition serve ::
  "socket \<Rightarrow> (string \<Rightarrow> (nat \<times> string) option) \<Rightarrow> string list \<Rightarrow> inbound \<Rightarrow> Context
     \<Rightarrow> Context \<times> socket_call list \<times> string option" where
  "serve socket caller snapshot e ctx =
     (let (ctx', effects) = handle e ctx;
          (calls, outcome, closing) = perform socket effects;
          reaction = (case outcome of None \<Rightarrow> None | Some reason \<Rightarrow> caller reason);
          closing' =
            (closing \<or>
             (case reaction of None \<Rightarrow> False | Some (code, why) \<Rightarrow> sock_close socket code why))
      in ((if closing' then fst (closed_callback snapshot ctx') else ctx'),
          calls @ (case reaction of None \<Rightarrow> [] | Some (code, why) \<Rightarrow> [Closes code why]),
          outcome))"

fun serve_all ::
  "socket \<Rightarrow> (string \<Rightarrow> (nat \<times> string) option) \<Rightarrow> string list \<Rightarrow> inbound list \<Rightarrow> Context
     \<Rightarrow> Context \<times> socket_call list \<times> string option list" where
  "serve_all socket caller snapshot [] ctx = (ctx, [], [])"
| "serve_all socket caller snapshot (e # es) ctx =
     (let (ctx', calls, outcome) = serve socket caller snapshot e ctx;
          (ctx'', calls', outcomes) = serve_all socket caller snapshot es ctx'
      in (ctx'', calls @ calls', outcome # outcomes))"

section \<open>Properties of the ws adapter\<close>

lemma send_fst_no_timer: "filter creates_timer (fst (send state data transmitted)) = []"
  by (simp add: send_def)

lemma socket_error_handler_no_timer:
  "filter creates_timer (socket_error_handler node_env lcr err) = []"
  by (simp add: socket_error_handler_def)

lemma message_handler_no_timer:
  "filter creates_timer (message_handler node_env lcr data outcome) = []"
  by (simp add: message_handler_def split: option.splits)

lemma pong_listener_idem: "pongWait c = None \<Longrightarrow> (pong_listener ^^ n) c = c"
  by (induction n) (simp_all add: pong_listener_def)

lemma pongWait_pong_listener: "pongWait (pong_listener c) = None"
  by (simp add: pong_listener_def split: option.splits)

lemma on_pong_eq:
  "on_pong c = (if pongListeners c = 0 then c else (pong_listener c)\<lparr>pongListeners := 0\<rparr>)"
proof (cases "pongListeners c")
  case 0
  then show ?thesis by (simp add: on_pong_def)
next
  case (Suc n)
  have "(pong_listener ^^ Suc n) c = (pong_listener ^^ n) (pong_listener c)"
    by (simp add: funpow_swap1)
  also have "\<dots> = pong_listener c"
    by (rule pong_listener_idem) (rule pongWait_pong_listener)
  finally show ?thesis using Suc by (simp add: on_pong_def)
qed

lemma idle_init:
  "\<not> (gt_zero keepAlive \<and> isFinite keepAlive) \<Longrightarrow> idle (on_connection keepAlive state)"
  by (auto simp add: idle_def on_connection_def)

lemma idle_step: "idle c \<Longrightarrow> idle (step node_env lcr keepAlive e c)"
proof (cases e)
  case TimerFires
  assume "idle c" then show ?thesis using TimerFires
    by (simp add: idle_def timer_fires_def)
next
  case PongFrame
  assume "idle c" then show ?thesis using PongFrame
    by (simp add: idle_def on_pong_eq pong_listener_def)
next
  case (SocketClosed code reason)
  assume "idle c" then show ?thesis using SocketClosed
    by (simp add: idle_def on_close_def)
next
  case (SocketError err)
  assume "idle c" then show ?thesis using SocketError
    by (simp add: idle_def socket_error_handler_no_timer)
next
  case (SocketMessage data outcome)
  assume "idle c" then show ?thesis using SocketMessage
    by (simp add: idle_def message_handler_no_timer)
next
  case (SendCalled data transmitted)
  assume "idle c" then show ?thesis using SendCalled
    by (simp add: idle_def send_fst_no_timer)
next
  case (ReadyState state)
  assume "idle c" then show ?thesis using ReadyState
    by (simp add: idle_def)
qed

lemma idle_run: "idle c \<Longrightarrow> idle (run node_env lcr keepAlive es c)"
  by (induction es arbitrary: c) (simp_all add: idle_step)

lemma inv_init: "keep_alive_inv keepAlive (on_connection keepAlive state)"
  by (simp add: keep_alive_inv_def on_connection_def)

lemma inv_timer_fires:
  assumes "keep_alive_inv keepAlive c"
  shows "keep_alive_inv keepAlive (timer_fires keepAlive c)"
  using assms
  by (auto simp add: keep_alive_inv_def timer_fires_def interval_callback_def Let_def
      split: if_splits)

lemma inv_pong_listener:
  assumes "keep_alive_inv keepAlive c"
  shows "keep_alive_inv keepAlive ((pong_listener c)\<lparr>pongListeners := 0\<rparr>)"
  using assms
  by (auto simp add: keep_alive_inv_def pong_listener_def clear_timer_def split: option.splits)

lemma inv_on_pong:
  assumes "keep_alive_inv keepAlive c"
  shows "keep_alive_inv keepAlive (on_pong c)"
  using assms inv_pong_listener [OF assms] by (simp add: on_pong_eq)

lemma timers_on_close:
  assumes "keep_alive_inv keepAlive c"
  shows "timers (on_close code reason c) = []"
  using assms
  by (auto simp add: keep_alive_inv_def on_close_def clear_timer_def Let_def split: option.splits)

lemma inv_on_close:
  assumes "keep_alive_inv keepAlive c"
  shows "keep_alive_inv keepAlive (on_close code reason c)"
proof -
  have "timers (on_close code reason c) = []" using assms by (rule timers_on_close)
  moreover have "pongWait (on_close code reason c) = pongWait c"
    by (simp add: on_close_def Let_def split: option.splits)
  moreover have "fresh (on_close code reason c) = fresh c"
    by (simp add: on_close_def Let_def split: option.splits)
  ultimately show ?thesis using assms by (simp add: keep_alive_inv_def)
qed

lemma inv_step:
  assumes "keep_alive_inv keepAlive c"
  shows "keep_alive_inv keepAlive (step node_env lcr keepAlive e c)"
proof (cases e)
  case TimerFires
  then show ?thesis using inv_timer_fires [OF assms] by simp
next
  case PongFrame
  then show ?thesis using inv_on_pong [OF assms] by simp
next
  case (SocketClosed code reason)
  then show ?thesis using inv_on_close [OF assms] by simp
next
  case (SocketError err)
  then show ?thesis using assms by (simp add: keep_alive_inv_def)
next
  case (SocketMessage data outcome)
  then show ?thesis using assms by (simp add: keep_alive_inv_def)
next
  case (SendCalled data transmitted)
  then show ?thesis using assms by (simp add: keep_alive_inv_def)
next
  case (ReadyState state)
  then show ?thesis using assms by (simp add: keep_alive_inv_def)
qed

lemma inv_run:
  "keep_alive_inv keepAlive c \<Longrightarrow> keep_alive_inv keepAlive (run node_env lcr keepAlive es c)"
  by (induction es arbitrary: c) (simp_all add: inv_step)

lemma inv_reachable:
  "keep_alive_inv keepAlive (run node_env lcr keepAlive es (on_connection keepAlive state))"
  by (rule inv_run) (rule inv_init)

lemma timers_empty_step:
  "timers c = [] \<Longrightarrow> timers (step node_env lcr keepAlive e c) = []"
  by (cases e)
     (simp_all add: timer_fires_def on_pong_eq pong_listener_def clear_timer_def on_close_def
        Let_def split: option.splits)

lemma timers_empty_run:
  "timers c = [] \<Longrightarrow> timers (run node_env lcr keepAlive es c) = []"
  by (induction es arbitrary: c) (simp_all add: timers_empty_step)

lemma trace_on_close:
  "closeListener c \<Longrightarrow>
   trace (on_close code reason c) =
     trace c @ (case pongWait c of None \<Rightarrow> [] | Some t \<Rightarrow> [ClearTimeout t])
             @ (case pingInterval c of None \<Rightarrow> [] | Some i \<Rightarrow> [ClearInterval i])
             @ [CallClosed code reason]"
  by (simp add: on_close_def Let_def split: option.splits)

lemma inv_timers_held:
  assumes "keep_alive_inv keepAlive c"
  shows "(t, PongWait, d) \<in> set (timers c) \<Longrightarrow> pongWait c = Some t"
    and "(i, PingInterval, d) \<in> set (timers c) \<Longrightarrow> pingInterval c = Some i"
  using assms by (auto simp add: keep_alive_inv_def)

lemma inv_tick:
  assumes "keep_alive_inv keepAlive c" and "timers c = (i, PingInterval, d) # rest"
  shows "i = 0" and "d = keepAlive" and "rest = []" and "0 < fresh c"
  using assms by (auto simp add: keep_alive_inv_def)

lemma inv_armed:
  assumes "keep_alive_inv keepAlive c" and "timers c = (t, PongWait, d) # rest"
  shows "d = keepAlive" and "pongWait c = Some t" and "0 < pongListeners c"
    and "rest = [(0, PingInterval, keepAlive)]" and "0 < t"
  using assms by (auto simp add: keep_alive_inv_def)

text \<open>
  Claim C3.  Take any connection, after any events (\<open>c\<close>).  If \<open>keepAlive\<close> is positive and
  finite, the connection callback sets the interval, with delay \<open>keepAlive\<close>, and
  \<^item> whenever the interval's callback runs on a socket that is \<open>OPEN\<close>, it sets a timeout of
    the same delay \<open>keepAlive\<close>, kept in \<open>pongWait\<close>, listens for one pong and sends a ping
    frame; the timeout is then the next timer to run, before the interval's next turn; on a
    socket that is not \<open>OPEN\<close> it does nothing;
  \<^item> whenever that timeout is pending, it is the one \<open>pongWait\<close> holds; a pong frame then
    clears it (\<open>clearTimeout\<close>, \<open>pongWait = null\<close>) and it will not run; if instead it runs,
    the socket is terminated (\<open>socket.terminate()\<close>, and no \<open>close\<close>).

  If \<open>keepAlive\<close> is not both positive and finite (zero, negative, \<open>NaN\<close>, an infinity), no
  timer is pending, no handle is held and none of the effects so far created a timer.
\<close>

theorem keep_alive_ping_pong:
  "let c = run node_env lcr keepAlive es (on_connection keepAlive state) in
   (gt_zero keepAlive \<and> isFinite keepAlive \<longrightarrow>
      trace (on_connection keepAlive state) = [SetInterval 0 keepAlive] \<and>
      timers (on_connection keepAlive state) = [(0, PingInterval, keepAlive)] \<and>
      (\<forall>i d rest. timers c = (i, PingInterval, d) # rest \<and> readyState c = OPEN \<longrightarrow>
         (let c' = step node_env lcr keepAlive TimerFires c in
          trace c' = trace c @ [SetTimeout (fresh c) keepAlive, OncePong, SocketPing] \<and>
          pongWait c' = Some (fresh c) \<and>
          timers c' = [(fresh c, PongWait, keepAlive), (i, PingInterval, keepAlive)])) \<and>
      (\<forall>i d rest. timers c = (i, PingInterval, d) # rest \<and> readyState c \<noteq> OPEN \<longrightarrow>
         trace (step node_env lcr keepAlive TimerFires c) = trace c \<and>
         timers (step node_env lcr keepAlive TimerFires c) = timers c) \<and>
      (\<forall>t d rest. timers c = (t, PongWait, d) # rest \<longrightarrow>
         d = keepAlive \<and> pongWait c = Some t \<and>
         (let c' = step node_env lcr keepAlive PongFrame c in
          trace c' = trace c @ [ClearTimeout t] \<and> pongWait c' = None \<and> timers c' = rest \<and>
          t \<notin> fst ` set (timers c')) \<and>
         (let c' = step node_env lcr keepAlive TimerFires c in
          trace c' = trace c @ [SocketTerminate] \<and> timers c' = rest))) \<and>
   (\<not> (gt_zero keepAlive \<and> isFinite keepAlive) \<longrightarrow>
      timers c = [] \<and> pingInterval c = None \<and> pongWait c = None \<and>
      filter creates_timer (trace c) = [])"
proof -
  define c where "c = run node_env lcr keepAlive es (on_connection keepAlive state)"
  have inv: "keep_alive_inv keepAlive c"
    unfolding c_def by (rule inv_reachable)
  have created: "trace (on_connection keepAlive state) = [SetInterval 0 keepAlive]"
    "timers (on_connection keepAlive state) = [(0, PingInterval, keepAlive)]"
    if "gt_zero keepAlive \<and> isFinite keepAlive"
    using that by (simp_all add: on_connection_def)
  have tick_open: "\<forall>i d rest. timers c = (i, PingInterval, d) # rest \<and> readyState c = OPEN \<longrightarrow>
         (let c' = step node_env lcr keepAlive TimerFires c in
          trace c' = trace c @ [SetTimeout (fresh c) keepAlive, OncePong, SocketPing] \<and>
          pongWait c' = Some (fresh c) \<and>
          timers c' = [(fresh c, PongWait, keepAlive), (i, PingInterval, keepAlive)])"
  proof (intro allI impI)
    fix i d rest
    assume a: "timers c = (i, PingInterval, d) # rest \<and> readyState c = OPEN"
    then have "timers c = (i, PingInterval, d) # rest" by simp
    from inv_tick [OF inv this] a
    show "let c' = step node_env lcr keepAlive TimerFires c in
          trace c' = trace c @ [SetTimeout (fresh c) keepAlive, OncePong, SocketPing] \<and>
          pongWait c' = Some (fresh c) \<and>
          timers c' = [(fresh c, PongWait, keepAlive), (i, PingInterval, keepAlive)]"
      by (simp add: timer_fires_def interval_callback_def Let_def)
  qed
  have tick_other: "\<forall>i d rest. timers c = (i, PingInterval, d) # rest \<and> readyState c \<noteq> OPEN \<longrightarrow>
         trace (step node_env lcr keepAlive TimerFires c) = trace c \<and>
         timers (step node_env lcr keepAlive TimerFires c) = timers c"
  proof (intro allI impI)
    fix i d rest
    assume a: "timers c = (i, PingInterval, d) # rest \<and> readyState c \<noteq> OPEN"
    then have "timers c = (i, PingInterval, d) # rest" by simp
    from inv_tick [OF inv this] a
    show "trace (step node_env lcr keepAlive TimerFires c) = trace c \<and>
         timers (step node_env lcr keepAlive TimerFires c) = timers c"
      by (simp add: timer_fires_def interval_callback_def Let_def)
  qed
  have armed: "\<forall>t d rest. timers c = (t, PongWait, d) # rest \<longrightarrow>
         d = keepAlive \<and> pongWait c = Some t \<and>
         (let c' = step node_env lcr keepAlive PongFrame c in
          trace c' = trace c @ [ClearTimeout t] \<and> pongWait c' = None \<and> timers c' = rest \<and>
          t \<notin> fst ` set (timers c')) \<and>
         (let c' = step node_env lcr keepAlive TimerFires c in
          trace c' = trace c @ [SocketTerminate] \<and> timers c' = rest)"
  proof (intro allI impI)
    fix t d rest
    assume a: "timers c = (t, PongWait, d) # rest"
    note facts = inv_armed [OF inv a]
    have pong: "let c' = step node_env lcr keepAlive PongFrame c in
          trace c' = trace c @ [ClearTimeout t] \<and> pongWait c' = None \<and> timers c' = rest \<and>
          t \<notin> fst ` set (timers c')"
      using a facts by (simp add: on_pong_eq pong_listener_def clear_timer_def)
    have fire: "let c' = step node_env lcr keepAlive TimerFires c in
          trace c' = trace c @ [SocketTerminate] \<and> timers c' = rest"
      using a by (simp add: timer_fires_def)
    from facts(1,2) pong fire
    show "d = keepAlive \<and> pongWait c = Some t \<and>
         (let c' = step node_env lcr keepAlive PongFrame c in
          trace c' = trace c @ [ClearTimeout t] \<and> pongWait c' = None \<and> timers c' = rest \<and>
          t \<notin> fst ` set (timers c')) \<and>
         (let c' = step node_env lcr keepAlive TimerFires c in
          trace c' = trace c @ [SocketTerminate] \<and> timers c' = rest)"
      by (intro conjI)
  qed
  have off: "timers c = [] \<and> pingInterval c = None \<and> pongWait c = None \<and>
      filter creates_timer (trace c) = []"
    if "\<not> (gt_zero keepAlive \<and> isFinite keepAlive)"
    using idle_run [OF idle_init [OF that], of node_env lcr keepAlive es state]
    by (simp add: idle_def c_def)
  show ?thesis
    unfolding c_def [symmetric] Let_def [of c]
  proof (intro conjI impI)
    assume on: "gt_zero keepAlive \<and> isFinite keepAlive"
    show "trace (on_connection keepAlive state) = [SetInterval 0 keepAlive]"
      using on by (rule created(1))
    show "timers (on_connection keepAlive state) = [(0, PingInterval, keepAlive)]"
      using on by (rule created(2))
  next
    assume "\<not> (gt_zero keepAlive \<and> isFinite keepAlive)"
    then have o: "timers c = [] \<and> pingInterval c = None \<and> pongWait c = None \<and>
      filter creates_timer (trace c) = []" by (rule off)
    from o show "timers c = []" by simp
    from o show "pingInterval c = None" by simp
    from o show "pongWait c = None" by simp
    from o show "filter creates_timer (trace c) = []" by simp
  qed (rule tick_open tick_other armed)+
qed

theorem keep_alive_ping_pong_witness:
  "gt_zero (Num 12000) \<and> isFinite (Num 12000) \<and>
   step None (\<lambda>r w. r) (Num 12000) TimerFires (on_connection (Num 12000) OPEN) =
     \<lparr>readyState = OPEN, pongWait = Some 1, pingInterval = Some 0,
      timers = [(1, PongWait, Num 12000), (0, PingInterval, Num 12000)], fresh = 2,
      pongListeners = 1, errorListener = True, closeListener = True,
      trace = [SetInterval 0 (Num 12000), SetTimeout 1 (Num 12000), OncePong, SocketPing]\<rparr> \<and>
   trace (run None (\<lambda>r w. r) (Num 12000) [TimerFires, PongFrame] (on_connection (Num 12000) OPEN)) =
     [SetInterval 0 (Num 12000), SetTimeout 1 (Num 12000), OncePong, SocketPing, ClearTimeout 1] \<and>
   trace (run None (\<lambda>r w. r) (Num 12000) [TimerFires, TimerFires] (on_connection (Num 12000) OPEN)) =
     [SetInterval 0 (Num 12000), SetTimeout 1 (Num 12000), OncePong, SocketPing, SocketTerminate] \<and>
   \<not> gt_zero (Num 0) \<and> \<not> isFinite PosInfinity \<and> \<not> isFinite NaN \<and>
   idle (run None (\<lambda>r w. r) (Num 0) [TimerFires, PongFrame] (on_connection (Num 0) OPEN)) \<and>
   idle (run None (\<lambda>r w. r) PosInfinity [TimerFires, PongFrame]
           (on_connection PosInfinity OPEN)) \<and>
   idle (run None (\<lambda>r w. r) NaN [TimerFires, PongFrame] (on_connection NaN OPEN))"
proof -
  have on: "gt_zero (Num 12000) \<and> isFinite (Num 12000)" by simp
  have c0: "on_connection (Num 12000) OPEN =
     \<lparr>readyState = OPEN, pongWait = None, pingInterval = Some 0,
      timers = [(0, PingInterval, Num 12000)], fresh = 1,
      pongListeners = 0, errorListener = True, closeListener = True,
      trace = [SetInterval 0 (Num 12000)]\<rparr>"
    by (simp add: on_connection_def)
  have c1: "timer_fires (Num 12000) (on_connection (Num 12000) OPEN) =
     \<lparr>readyState = OPEN, pongWait = Some 1, pingInterval = Some 0,
      timers = [(1, PongWait, Num 12000), (0, PingInterval, Num 12000)], fresh = 2,
      pongListeners = 1, errorListener = True, closeListener = True,
      trace = [SetInterval 0 (Num 12000), SetTimeout 1 (Num 12000), OncePong, SocketPing]\<rparr>"
    by (simp add: c0 timer_fires_def interval_callback_def Let_def)
  note at_start =
    keep_alive_ping_pong [where keepAlive = "Num 12000" and es = "[]" and state = OPEN
      and node_env = None and lcr = "\<lambda>r w. r", unfolded Let_def, THEN conjunct1, rule_format, OF on]
  note armed =
    keep_alive_ping_pong [where keepAlive = "Num 12000" and es = "[TimerFires]" and state = OPEN
      and node_env = None and lcr = "\<lambda>r w. r", unfolded Let_def, THEN conjunct1, rule_format, OF on]
  have tick: "trace (step None (\<lambda>r w. r) (Num 12000) TimerFires (on_connection (Num 12000) OPEN)) =
      [SetInterval 0 (Num 12000), SetTimeout 1 (Num 12000), OncePong, SocketPing]"
    using at_start [THEN conjunct2, THEN conjunct2, THEN conjunct1, rule_format,
        of 0 "Num 12000" "[]"]
    by (simp add: c0)
  have pong: "trace (run None (\<lambda>r w. r) (Num 12000) [TimerFires, PongFrame]
        (on_connection (Num 12000) OPEN)) =
      [SetInterval 0 (Num 12000), SetTimeout 1 (Num 12000), OncePong, SocketPing, ClearTimeout 1]"
    using armed [THEN conjunct2, THEN conjunct2, THEN conjunct2, THEN conjunct2, rule_format,
        of 1 "Num 12000" "[(0, PingInterval, Num 12000)]"]
    by (simp add: c1)
  have fire: "trace (run None (\<lambda>r w. r) (Num 12000) [TimerFires, TimerFires]
        (on_connection (Num 12000) OPEN)) =
      [SetInterval 0 (Num 12000), SetTimeout 1 (Num 12000), OncePong, SocketPing, SocketTerminate]"
    using armed [THEN conjunct2, THEN conjunct2, THEN conjunct2, THEN conjunct2, rule_format,
        of 1 "Num 12000" "[(0, PingInterval, Num 12000)]"]
    by (simp add: c1)
  have off0: "\<not> (gt_zero (Num 0) \<and> isFinite (Num 0))" by simp
  have offI: "\<not> (gt_zero PosInfinity \<and> isFinite PosInfinity)" by simp
  have offN: "\<not> (gt_zero NaN \<and> isFinite NaN)" by simp
  note never = keep_alive_ping_pong [unfolded Let_def, THEN conjunct2, rule_format]
  have i0: "idle (run None (\<lambda>r w. r) (Num 0) [TimerFires, PongFrame] (on_connection (Num 0) OPEN))"
    using never [OF off0, of None "\<lambda>r w. r" "[TimerFires, PongFrame]" OPEN]
    by (simp only: idle_def)
  have iI: "idle (run None (\<lambda>r w. r) PosInfinity [TimerFires, PongFrame]
      (on_connection PosInfinity OPEN))"
    using never [OF offI, of None "\<lambda>r w. r" "[TimerFires, PongFrame]" OPEN]
    by (simp only: idle_def)
  have iN: "idle (run None (\<lambda>r w. r) NaN [TimerFires, PongFrame] (on_connection NaN OPEN))"
    using never [OF offN, of None "\<lambda>r w. r" "[TimerFires, PongFrame]" OPEN]
    by (simp only: idle_def)
  from on c1 tick pong fire i0 iI iN show ?thesis by simp
qed

text \<open>
  Claim C9.  Take any connection, after any events (\<open>c\<close>), and let the socket's \<open>'close'\<close> be
  observed, with any code and reason (so also after a \<open>terminate\<close>).  Then no timer is
  pending, and none is ever again, whatever follows.  If this is the first close (the
  \<open>once\<close> listener is still there), the handler's effects are, in this order:
  \<open>clearTimeout(pongWait)\<close> if \<open>pongWait\<close> holds a handle, \<open>clearInterval(pingInterval)\<close> if the
  interval was set, and only then \<open>closed(code, reason)\<close>; and every timer that was pending
  is one of the two cleared: a pending timeout is the one \<open>pongWait\<close> holds, a pending
  interval the one \<open>pingInterval\<close> holds.
\<close>

theorem close_clears_keep_alive_timers:
  "let c = run node_env lcr keepAlive es (on_connection keepAlive state);
       c' = step node_env lcr keepAlive (SocketClosed code reason) c
   in timers c' = [] \<and>
      timers (run node_env lcr keepAlive es' c') = [] \<and>
      (closeListener c \<longrightarrow>
         trace c' =
           trace c @ (case pongWait c of None \<Rightarrow> [] | Some t \<Rightarrow> [ClearTimeout t])
                   @ (case pingInterval c of None \<Rightarrow> [] | Some i \<Rightarrow> [ClearInterval i])
                   @ [CallClosed code reason] \<and>
         (\<forall>t d. (t, PongWait, d) \<in> set (timers c) \<longrightarrow> pongWait c = Some t) \<and>
         (\<forall>i d. (i, PingInterval, d) \<in> set (timers c) \<longrightarrow> pingInterval c = Some i))"
proof -
  define c where "c = run node_env lcr keepAlive es (on_connection keepAlive state)"
  define c' where "c' = step node_env lcr keepAlive (SocketClosed code reason) c"
  have inv: "keep_alive_inv keepAlive c"
    unfolding c_def by (rule inv_reachable)
  have none: "timers c' = []"
    unfolding c'_def using timers_on_close [OF inv] by simp
  then have later: "timers (run node_env lcr keepAlive es' c') = []"
    by (rule timers_empty_run)
  have order: "trace c' =
           trace c @ (case pongWait c of None \<Rightarrow> [] | Some t \<Rightarrow> [ClearTimeout t])
                   @ (case pingInterval c of None \<Rightarrow> [] | Some i \<Rightarrow> [ClearInterval i])
                   @ [CallClosed code reason]" if "closeListener c"
    unfolding c'_def using trace_on_close [OF that] by simp
  have held: "\<forall>t d. (t, PongWait, d) \<in> set (timers c) \<longrightarrow> pongWait c = Some t"
    "\<forall>i d. (i, PingInterval, d) \<in> set (timers c) \<longrightarrow> pingInterval c = Some i"
    using inv_timers_held [OF inv] by blast+
  show ?thesis
    unfolding Let_def c_def [symmetric] c'_def [symmetric]
  proof (intro conjI impI)
    show "timers c' = []" by (rule none)
    show "timers (run node_env lcr keepAlive es' c') = []" by (rule later)
    show "trace c' =
           trace c @ (case pongWait c of None \<Rightarrow> [] | Some t \<Rightarrow> [ClearTimeout t])
                   @ (case pingInterval c of None \<Rightarrow> [] | Some i \<Rightarrow> [ClearInterval i])
                   @ [CallClosed code reason]" if "closeListener c"
      using that by (rule order)
  qed (rule held)+
qed

theorem close_clears_keep_alive_timers_witness:
  "closeListener (run None (\<lambda>r w. r) (Num 12000) [TimerFires] (on_connection (Num 12000) OPEN)) \<and>
   timers (run None (\<lambda>r w. r) (Num 12000) [TimerFires] (on_connection (Num 12000) OPEN)) =
     [(1, PongWait, Num 12000), (0, PingInterval, Num 12000)] \<and>
   timers (run None (\<lambda>r w. r) (Num 12000) [TimerFires, SocketClosed 1006 []]
             (on_connection (Num 12000) OPEN)) = [] \<and>
   trace (run None (\<lambda>r w. r) (Num 12000) [TimerFires, SocketClosed 1006 []]
            (on_connection (Num 12000) OPEN)) =
     [SetInterval 0 (Num 12000), SetTimeout 1 (Num 12000), OncePong, SocketPing,
      ClearTimeout 1, ClearInterval 0, CallClosed 1006 []] \<and>
   timers (run None (\<lambda>r w. r) (Num 12000) [TimerFires, SocketClosed 1006 [], PongFrame, TimerFires]
             (on_connection (Num 12000) OPEN)) = []"
proof -
  have c1: "timer_fires (Num 12000) (on_connection (Num 12000) OPEN) =
     \<lparr>readyState = OPEN, pongWait = Some 1, pingInterval = Some 0,
      timers = [(1, PongWait, Num 12000), (0, PingInterval, Num 12000)], fresh = 2,
      pongListeners = 1, errorListener = True, closeListener = True,
      trace = [SetInterval 0 (Num 12000), SetTimeout 1 (Num 12000), OncePong, SocketPing]\<rparr>"
    by (simp add: on_connection_def timer_fires_def interval_callback_def Let_def)
  note closed =
    close_clears_keep_alive_timers [where keepAlive = "Num 12000" and es = "[TimerFires]"
      and state = OPEN and node_env = None and lcr = "\<lambda>r w. r" and code = 1006 and reason = "[]"
      and es' = "[PongFrame, TimerFires]", unfolded Let_def]
  have listening: "closeListener (run None (\<lambda>r w. r) (Num 12000) [TimerFires]
      (on_connection (Num 12000) OPEN))"
    by (simp add: c1)
  have live: "timers (run None (\<lambda>r w. r) (Num 12000) [TimerFires]
      (on_connection (Num 12000) OPEN)) = [(1, PongWait, Num 12000), (0, PingInterval, Num 12000)]"
    by (simp add: c1)
  have cleared: "timers (run None (\<lambda>r w. r) (Num 12000) [TimerFires, SocketClosed 1006 []]
             (on_connection (Num 12000) OPEN)) = []"
    using closed [THEN conjunct1] by simp
  have later: "timers (run None (\<lambda>r w. r) (Num 12000)
      [TimerFires, SocketClosed 1006 [], PongFrame, TimerFires]
             (on_connection (Num 12000) OPEN)) = []"
    using closed [THEN conjunct2, THEN conjunct1] by simp
  have order: "trace (run None (\<lambda>r w. r) (Num 12000) [TimerFires, SocketClosed 1006 []]
            (on_connection (Num 12000) OPEN)) =
     [SetInterval 0 (Num 12000), SetTimeout 1 (Num 12000), OncePong, SocketPing,
      ClearTimeout 1, ClearInterval 0, CallClosed 1006 []]"
    using closed [THEN conjunct2, THEN conjunct2, rule_format, OF listening, THEN conjunct1]
    by (simp add: c1)
  from listening live cleared later order show ?thesis by (intro conjI)
qed

text \<open>
  Claim C10.  On a socket whose \<open>readyState\<close> is not \<open>OPEN\<close>, \<open>send\<close> transmits nothing and
  its promise is resolved, whatever the payload and whatever \<open>socket.send\<close> would have done.
  The promise is rejected only on an \<open>OPEN\<close> socket, after \<open>socket.send\<close> was called, when
  the callback reports an error, and then with that error.
\<close>

theorem send_drops_on_non_open_socket:
  "(state \<noteq> OPEN \<longrightarrow> send state data transmitted = ([], Resolved)) \<and>
   (snd (send state data transmitted) = Rejected err \<longrightarrow>
      state = OPEN \<and> transmitted = Called (Some err) \<and>
      fst (send state data transmitted) = [SocketSend data]) \<and>
   (state = OPEN \<and> transmitted = Called (Some err) \<longrightarrow>
      send state data transmitted = ([SocketSend data], Rejected err))"
  by (cases transmitted) (auto simp add: send_def split: option.splits)

theorem send_drops_on_non_open_socket_witness:
  "send CONNECTING ''{}'' (Called (Some (Error ''write EPIPE''))) = ([], Resolved) \<and>
   send CLOSING ''{}'' (Called (Some (Error ''write EPIPE''))) = ([], Resolved) \<and>
   send CLOSED ''{}'' (Called (Some (Error ''write EPIPE''))) = ([], Resolved) \<and>
   send OPEN ''{}'' (Called (Some (Error ''write EPIPE''))) =
     ([SocketSend ''{}''], Rejected (Error ''write EPIPE''))"
proof -
  note dropped = send_drops_on_non_open_socket [THEN conjunct1, rule_format]
  note failed = send_drops_on_non_open_socket [THEN conjunct2, THEN conjunct2, rule_format]
  have "send CONNECTING ''{}'' (Called (Some (Error ''write EPIPE''))) = ([], Resolved)"
    by (rule dropped) simp
  moreover have "send CLOSING ''{}'' (Called (Some (Error ''write EPIPE''))) = ([], Resolved)"
    by (rule dropped) simp
  moreover have "send CLOSED ''{}'' (Called (Some (Error ''write EPIPE''))) = ([], Resolved)"
    by (rule dropped) simp
  moreover have "send OPEN ''{}'' (Called (Some (Error ''write EPIPE''))) =
     ([SocketSend ''{}''], Rejected (Error ''write EPIPE''))"
    by (rule failed) simp
  ultimately show ?thesis by (intro conjI)
qed

lemma close_clients_trace:
  "fst (close_clients code reason clients firstErr) =
     map (\<lambda>c. ClientClose (cid c) code reason) clients"
  by (induction clients arbitrary: firstErr) (simp_all add: Let_def case_prod_beta)

lemma close_clients_kept:
  "snd (close_clients code reason clients (Some e)) = Some e"
  by (induction clients) (simp_all add: Let_def case_prod_beta split: option.splits)

lemma close_clients_first:
  "snd (close_clients code reason clients None) =
     (case List.map_filter (\<lambda>c. close_throws c code reason) clients of
        [] \<Rightarrow> None
      | e # es \<Rightarrow> Some e)"
proof (induction clients)
  case Nil
  then show ?case by simp
next
  case (Cons c cs)
  show ?case
  proof (cases "close_throws c code reason")
    case None
    then show ?thesis using Cons
      by (simp add: Let_def case_prod_beta)
  next
    case (Some e)
    then show ?thesis using close_clients_kept [of code reason cs e]
      by (simp add: Let_def case_prod_beta)
  qed
qed

lemma server_error_handler_eq:
  "server_error_handler node_env lcr err clients =
     ConsoleError ServerInternalError err #
     map (\<lambda>c. ClientClose (cid c) InternalServerError (close_reason node_env lcr err)) clients @
     (case List.map_filter
             (\<lambda>c. close_throws c InternalServerError (close_reason node_env lcr err)) clients of
        [] \<Rightarrow> []
      | e # es \<Rightarrow> [Rethrow e])"
proof -
  obtain acts firstErr where
    r: "close_clients InternalServerError (close_reason node_env lcr err) clients None =
          (acts, firstErr)"
    by (cases "close_clients InternalServerError (close_reason node_env lcr err) clients None")
  have "acts = map (\<lambda>c. ClientClose (cid c) InternalServerError (close_reason node_env lcr err)) clients"
    using close_clients_trace [of InternalServerError "close_reason node_env lcr err" clients None] r
    by simp
  moreover have "firstErr =
     (case List.map_filter
             (\<lambda>c. close_throws c InternalServerError (close_reason node_env lcr err)) clients of
        [] \<Rightarrow> None
      | e # es \<Rightarrow> Some e)"
    using close_clients_first [of InternalServerError "close_reason node_env lcr err" clients] r
    by simp
  ultimately show ?thesis
    by (simp add: server_error_handler_def r split: list.splits)
qed

text \<open>
  Claim C7.  The handler of the socket server's \<open>'error'\<close> logs the error, then calls
  \<open>close\<close> with code 4500 on every client of \<open>ws.clients\<close>, in order, whether or not an earlier
  \<open>close\<close> threw; if any of these calls threw, the exception of the first one that did is
  thrown again, and that is the handler's last effect, after the last client's \<open>close\<close>;
  later exceptions are dropped.
\<close>

theorem server_error_closes_every_client:
  "InternalServerError = 4500 \<and>
   server_error_handler node_env lcr err clients =
     ConsoleError ServerInternalError err #
     map (\<lambda>c. ClientClose (cid c) 4500 (close_reason node_env lcr err)) clients @
     (case List.map_filter (\<lambda>c. close_throws c 4500 (close_reason node_env lcr err)) clients of
        [] \<Rightarrow> []
      | e # es \<Rightarrow> [Rethrow e])"
  using server_error_handler_eq [of node_env lcr err clients]
  by (simp add: InternalServerError_def)

theorem server_error_closes_every_client_witness:
  "server_error_handler None (\<lambda>r w. r) (NonError ''x'')
     [\<lparr>cid = 1, close_throws = (\<lambda>code reason. None)\<rparr>,
      \<lparr>cid = 2, close_throws = (\<lambda>code reason. Some (Error ''first''))\<rparr>,
      \<lparr>cid = 3, close_throws = (\<lambda>code reason. Some (Error ''second''))\<rparr>,
      \<lparr>cid = 4, close_throws = (\<lambda>code reason. None)\<rparr>] =
   [ConsoleError ServerInternalError (NonError ''x''),
    ClientClose 1 4500 ''x'', ClientClose 2 4500 ''x'', ClientClose 3 4500 ''x'',
    ClientClose 4 4500 ''x'', Rethrow (Error ''first'')]"
  using server_error_closes_every_client [THEN conjunct2, of None "\<lambda>r w. r" "NonError ''x''"
      "[\<lparr>cid = 1, close_throws = (\<lambda>code reason. None)\<rparr>,
      \<lparr>cid = 2, close_throws = (\<lambda>code reason. Some (Error ''first''))\<rparr>,
      \<lparr>cid = 3, close_throws = (\<lambda>code reason. Some (Error ''second''))\<rparr>,
      \<lparr>cid = 4, close_throws = (\<lambda>code reason. None)\<rparr>]"]
  by (simp add: close_reason_def isProd_def)

text \<open>
  Claim C6.  The three places where the adapter turns an internal error into a close frame,
  the socket's \<open>'error'\<close>, an exception of the message callback, and the socket server's
  \<open>'error'\<close> (for every client), all close with code 4500 and with the same reason
  \<open>close_reason\<close>.  When \<open>NODE_ENV\<close> is \<open>production\<close>, that reason is the literal
  \<open>Internal server error\<close>, the same for any two errors (and whatever \<open>limitCloseReason\<close>
  is).  Otherwise it is \<open>limitCloseReason\<close> applied to the error's message (to \<open>String(err)\<close>
  for a value that is not an \<open>Error\<close>) and to the fallback \<open>Internal server error\<close>.
\<close>

theorem internal_error_close_reason:
  "socket_error_handler node_env lcr err =
     [ConsoleError SocketInternalError err, SocketClose 4500 (close_reason node_env lcr err)] \<and>
   message_handler node_env lcr data (Some err) =
     [CallCb data, ConsoleError MessageHandlingError err,
      SocketClose 4500 (close_reason node_env lcr err)] \<and>
   filter (\<lambda>a. case a of ClientClose c code reason \<Rightarrow> True | _ \<Rightarrow> False)
       (server_error_handler node_env lcr err clients) =
     map (\<lambda>c. ClientClose (cid c) 4500 (close_reason node_env lcr err)) clients \<and>
   (node_env = Some ''production'' \<longrightarrow>
      close_reason node_env lcr err = ''Internal server error'' \<and>
      close_reason node_env lcr err = close_reason node_env lcr' err') \<and>
   (node_env \<noteq> Some ''production'' \<longrightarrow>
      close_reason node_env lcr err = lcr (error_text err) ''Internal server error'')"
proof -
  have "filter (\<lambda>a. case a of ClientClose c code reason \<Rightarrow> True | _ \<Rightarrow> False)
       (server_error_handler node_env lcr err clients) =
     map (\<lambda>c. ClientClose (cid c) 4500 (close_reason node_env lcr err)) clients"
    unfolding server_error_handler_eq
    by (simp add: InternalServerError_def filter_map comp_def split: list.splits)
  then show ?thesis
    by (simp add: socket_error_handler_def message_handler_def close_reason_def isProd_def
        InternalServerError_def)
qed

theorem internal_error_close_reason_witness:
  "close_reason (Some ''production'') (\<lambda>r w. if length r < 124 then r else w)
       (ErrorObj (Error ''connect ECONNREFUSED db:5432'')) = ''Internal server error'' \<and>
   close_reason (Some ''production'') (\<lambda>r w. if length r < 124 then r else w)
       (ErrorObj (Error ''connect ECONNREFUSED db:5432'')) =
   close_reason (Some ''production'') (\<lambda>r w. if length r < 124 then r else w)
       (NonError ''boom'') \<and>
   close_reason None (\<lambda>r w. if length r < 124 then r else w)
       (ErrorObj (Error ''connect ECONNREFUSED db:5432'')) = ''connect ECONNREFUSED db:5432'' \<and>
   close_reason (Some ''development'') (\<lambda>r w. if length r < 124 then r else w)
       (NonError ''boom'') = ''boom''"
proof -
  note prod = internal_error_close_reason [THEN conjunct2, THEN conjunct2, THEN conjunct2,
      THEN conjunct1, rule_format]
  note dev = internal_error_close_reason [THEN conjunct2, THEN conjunct2, THEN conjunct2,
      THEN conjunct2, rule_format]
  have p: "Some ''production'' = Some ''production''" by (rule refl)
  have "close_reason (Some ''production'') (\<lambda>r w. if length r < 124 then r else w)
       (ErrorObj (Error ''connect ECONNREFUSED db:5432'')) = ''Internal server error''"
    using prod [OF p] by (rule conjunct1)
  moreover have "close_reason (Some ''production'') (\<lambda>r w. if length r < 124 then r else w)
       (ErrorObj (Error ''connect ECONNREFUSED db:5432'')) =
   close_reason (Some ''production'') (\<lambda>r w. if length r < 124 then r else w)
       (NonError ''boom'')"
    using prod [OF p] by (rule conjunct2)
  moreover have "close_reason None (\<lambda>r w. if length r < 124 then r else w)
       (ErrorObj (Error ''connect ECONNREFUSED db:5432'')) = ''connect ECONNREFUSED db:5432''"
    using dev [of None "\<lambda>r w. if length r < 124 then r else w"
        "ErrorObj (Error ''connect ECONNREFUSED db:5432'')"]
    by simp
  moreover have "close_reason (Some ''development'') (\<lambda>r w. if length r < 124 then r else w)
       (NonError ''boom'') = ''boom''"
    using dev [of "Some ''development''" "\<lambda>r w. if length r < 124 then r else w" "NonError ''boom''"]
    by simp
  ultimately show ?thesis by (intro conjI)
qed

lemma dispose_clients_ok:
  "\<forall>c \<in> set clients. close_throws c 1001 ''Going away'' = None \<Longrightarrow>
   dispose_clients clients = (map (\<lambda>c. ClientClose (cid c) 1001 ''Going away'') clients, None)"
  by (induction clients) simp_all

text \<open>
  When no client's \<open>close(1001, 'Going away')\<close> throws, \<open>dispose\<close> calls it on every client
  of \<open>ws.clients\<close>, in order, then \<open>ws.removeAllListeners()\<close>, then \<open>ws.close\<close>; its promise
  is pending until \<open>ws.close\<close> calls back, resolved exactly when the callback reports no
  error, and rejected with the callback's error exactly when it reports one.
\<close>

lemma dispose_when_no_close_throws:
  assumes "\<forall>c \<in> set clients. close_throws c 1001 ''Going away'' = None"
  shows "fst (dispose clients server_closed) =
           map (\<lambda>c. ClientClose (cid c) 1001 ''Going away'') clients @
           [RemoveAllListeners, ServerClose] \<and>
         (snd (dispose clients server_closed) = Resolved \<longleftrightarrow> server_closed = Called None) \<and>
         (snd (dispose clients server_closed) = Rejected e \<longleftrightarrow> server_closed = Called (Some e)) \<and>
         (snd (dispose clients server_closed) = Pending \<longleftrightarrow> server_closed = NotCalled)"
  using dispose_clients_ok [OF assms]
  by (cases server_closed) (auto simp add: dispose_def split: option.splits)

text \<open>
  A \<open>close\<close> that throws ends \<open>dispose\<close> there: the clients after it are not closed, the
  listeners stay, the socket server is not closed, and the promise is rejected with the
  exception, whatever \<open>ws.close\<close> would have reported.
\<close>

lemma dispose_clients_first_throw:
  assumes "\<forall>c \<in> set before. close_throws c 1001 ''Going away'' = None"
    and "close_throws c 1001 ''Going away'' = Some err"
  shows "dispose_clients (before @ c # after) =
           (map (\<lambda>c. ClientClose (cid c) 1001 ''Going away'') (before @ [c]), Some err)"
  using assms by (induction before) simp_all

lemma dispose_rejects_at_first_throw:
  assumes "\<forall>c \<in> set before. close_throws c 1001 ''Going away'' = None"
    and "close_throws c 1001 ''Going away'' = Some err"
  shows "dispose (before @ c # after) server_closed =
           (map (\<lambda>c. ClientClose (cid c) 1001 ''Going away'') (before @ [c]), Rejected err)"
  using dispose_clients_first_throw [OF assms] by (simp add: dispose_def)


section \<open>Properties of the protocol server, as the specification has it\<close>

subsection \<open>Subprotocol negotiation\<close>

lemma split_commas_no_comma: "CHR '','' \<notin> set t \<Longrightarrow> split_commas t = [t]"
  by (induction t) auto

lemma split_commas_first_comma:
  "CHR '','' \<notin> set t \<Longrightarrow> split_commas (t @ CHR '','' # rest) = t # split_commas rest"
  by (induction t) auto

lemma first_split_unique:
  "x \<notin> set xs \<Longrightarrow> x \<notin> set xs' \<Longrightarrow> xs @ x # ys = xs' @ x # ys' \<Longrightarrow> xs = xs' \<and> ys = ys'"
proof (induction xs arbitrary: xs')
  case Nil
  then show ?case by (cases xs') auto
next
  case (Cons a xs)
  then show ?case by (cases xs') auto
qed

lemma in_split_commas_iff:
  "p \<in> set (split_commas s) \<longleftrightarrow>
     (\<exists>a b. s = a @ p @ b \<and> CHR '','' \<notin> set p \<and>
            (a = [] \<or> last a = CHR '','') \<and> (b = [] \<or> hd b = CHR '',''))"
proof (induction s arbitrary: p rule: length_induct)
  case (1 s)
  show ?case
  proof (cases "CHR '','' \<in> set s")
    case False
    have "p = s" if "s = a @ p @ b" and "a = [] \<or> last a = CHR '',''"
      and "b = [] \<or> hd b = CHR '',''" for a b
    proof -
      have "a = []"
      proof (rule ccontr)
        assume "a \<noteq> []"
        then have "last a = CHR '',''" using that(2) by simp
        with last_in_set [OF \<open>a \<noteq> []\<close>] have "CHR '','' \<in> set a" by simp
        then show False using that(1) False by simp
      qed
      moreover have "b = []"
      proof (rule ccontr)
        assume "b \<noteq> []"
        then have "hd b = CHR '',''" using that(3) by simp
        with hd_in_set [OF \<open>b \<noteq> []\<close>] have "CHR '','' \<in> set b" by simp
        then show False using that(1) False by simp
      qed
      ultimately show ?thesis using that(1) by simp
    qed
    moreover have "\<exists>a b. s = a @ s @ b \<and> CHR '','' \<notin> set s \<and>
            (a = [] \<or> last a = CHR '','') \<and> (b = [] \<or> hd b = CHR '','')"
      using False by (intro exI [of _ "[]"]) simp
    ultimately show ?thesis using split_commas_no_comma [OF False] by auto
  next
    case True
    then obtain t rest where s: "s = t @ CHR '','' # rest" and t: "CHR '','' \<notin> set t"
      by (auto dest: split_list_first)
    have pieces: "split_commas s = t # split_commas rest"
      unfolding s using t by (rule split_commas_first_comma)
    have IH: "q \<in> set (split_commas rest) \<longleftrightarrow>
     (\<exists>a b. rest = a @ q @ b \<and> CHR '','' \<notin> set q \<and>
            (a = [] \<or> last a = CHR '','') \<and> (b = [] \<or> hd b = CHR '',''))" for q
      using "1.IH" [rule_format, of rest q] s by simp
    show ?thesis
    proof
      assume "p \<in> set (split_commas s)"
      then consider "p = t" | "p \<in> set (split_commas rest)" using pieces by auto
      then show "\<exists>a b. s = a @ p @ b \<and> CHR '','' \<notin> set p \<and>
            (a = [] \<or> last a = CHR '','') \<and> (b = [] \<or> hd b = CHR '','')"
      proof cases
        case 1
        then show ?thesis using s t
          by (intro exI [of _ "[]"] exI [of _ "CHR '','' # rest"]) simp
      next
        case 2
        then obtain a b where r: "rest = a @ p @ b" "CHR '','' \<notin> set p"
          "a = [] \<or> last a = CHR '',''" "b = [] \<or> hd b = CHR '',''"
          using IH by blast
        then show ?thesis using s
          by (intro exI [of _ "t @ CHR '','' # a"] exI [of _ b]) auto
      qed
    next
      assume "\<exists>a b. s = a @ p @ b \<and> CHR '','' \<notin> set p \<and>
            (a = [] \<or> last a = CHR '','') \<and> (b = [] \<or> hd b = CHR '','')"
      then obtain a b where d: "s = a @ p @ b" "CHR '','' \<notin> set p"
          "a = [] \<or> last a = CHR '',''" "b = [] \<or> hd b = CHR '',''"
        by blast
      show "p \<in> set (split_commas s)"
      proof (cases "a = []")
        case True
        have "b \<noteq> []" using d(1,2) True \<open>CHR '','' \<in> set s\<close> by auto
        then obtain b' where b: "b = CHR '','' # b'" using d(4) by (cases b) auto
        have "t @ CHR '','' # rest = p @ CHR '','' # b'" using s d(1) True b by simp
        from first_split_unique [OF t d(2) this] have "p = t" by simp
        then show ?thesis using pieces by simp
      next
        case False
        then obtain a0 where a: "a = a0 @ [CHR '','']" using d(3)
          by (metis append_butlast_last_id)
        show ?thesis
        proof (cases "CHR '','' \<in> set a0")
          case False
          have "t @ CHR '','' # rest = a0 @ CHR '','' # (p @ b)" using s d(1) a by simp
          from first_split_unique [OF t False this] have "rest = [] @ p @ b" by simp
          then have "p \<in> set (split_commas rest)" using IH d(2,4) by blast
          then show ?thesis using pieces by simp
        next
          case True
          then obtain t' a1 where a0: "a0 = t' @ CHR '','' # a1" and t': "CHR '','' \<notin> set t'"
            by (auto dest: split_list_first)
          have "t @ CHR '','' # rest = t' @ CHR '','' # (a1 @ [CHR '','']) @ p @ b"
            using s d(1) a a0 by simp
          from first_split_unique [OF t t' this]
          have "rest = (a1 @ [CHR '','']) @ p @ b" by simp
          moreover have "last (a1 @ [CHR '','']) = CHR '',''" by simp
          ultimately have "p \<in> set (split_commas rest)" using IH d(2,4) by blast
          then show ?thesis using pieces by simp
        qed
      qed
    qed
  qed
qed

lemma trim_padded:
  assumes "token \<noteq> []" and "\<not> is_space (hd token)" and "\<not> is_space (last token)"
    and "list_all is_space l" and "list_all is_space r"
  shows "trim (l @ token @ r) = token"
proof -
  have "dropWhile is_space (l @ token @ r) = token @ r"
    using assms(1,2,4) by (cases token) (simp_all add: dropWhile_append list_all_iff)
  moreover have "dropWhile is_space (rev r @ rev token) = rev token"
    using assms(1,3,5)
    by (cases "rev token") (simp_all add: dropWhile_append list_all_iff last_rev [symmetric] hd_rev)
  ultimately show ?thesis by (simp add: trim_def)
qed

lemma trim_decompose:
  "\<exists>l r. p = l @ trim p @ r \<and> list_all is_space l \<and> list_all is_space r"
proof -
  define m where "m = dropWhile is_space p"
  define l where "l = takeWhile is_space p"
  define r where "r = rev (takeWhile is_space (rev m))"
  have "p = l @ m" by (simp add: l_def m_def)
  moreover have "rev m = takeWhile is_space (rev m) @ dropWhile is_space (rev m)" by simp
  then have "m = trim p @ r"
    unfolding trim_def m_def [symmetric] r_def
    by (metis rev_append rev_rev_ident)
  moreover have "list_all is_space l"
    unfolding l_def list_all_iff by (auto dest: set_takeWhileD)
  moreover have "list_all is_space r"
    unfolding r_def list_all_iff by (auto dest: set_takeWhileD)
  ultimately show ?thesis by auto
qed

lemma comma_not_space: "\<not> is_space (CHR '','')"
  by (simp add: is_space_def)

lemma token_member_iff:
  assumes "token \<noteq> []" and "\<not> is_space (hd token)" and "\<not> is_space (last token)"
    and "CHR '','' \<notin> set token"
  shows "token \<in> set (map trim (split_commas s)) \<longleftrightarrow> token_between_commas token s"
proof
  assume "token \<in> set (map trim (split_commas s))"
  then obtain p where p: "p \<in> set (split_commas s)" and tr: "trim p = token" by auto
  from p obtain a b where d: "s = a @ p @ b" "a = [] \<or> last a = CHR '',''"
      "b = [] \<or> hd b = CHR '',''"
    unfolding in_split_commas_iff by blast
  from trim_decompose [of p] tr obtain l r where
    "p = l @ token @ r" "list_all is_space l" "list_all is_space r" by auto
  with d show "token_between_commas token s"
    unfolding token_between_commas_def by auto
next
  assume "token_between_commas token s"
  then obtain a l r b where d: "s = a @ l @ token @ r @ b"
      "a = [] \<or> last a = CHR '',''" "b = [] \<or> hd b = CHR '',''"
      "list_all is_space l" "list_all is_space r"
    unfolding token_between_commas_def by blast
  have "CHR '','' \<notin> set (l @ token @ r)"
    using d(4,5) assms(4) comma_not_space by (auto simp add: list_all_iff)
  then have "l @ token @ r \<in> set (split_commas s)"
    unfolding in_split_commas_iff using d(1,2,3) by (intro exI [of _ a] exI [of _ b]) simp
  moreover have "trim (l @ token @ r) = token"
    using assms(1,2,3) d(4,5) by (rule trim_padded)
  ultimately show "token \<in> set (map trim (split_commas s))" by force
qed

lemma protocol_token:
  "GRAPHQL_TRANSPORT_WS_PROTOCOL \<noteq> []"
  "\<not> is_space (hd GRAPHQL_TRANSPORT_WS_PROTOCOL)"
  "\<not> is_space (last GRAPHQL_TRANSPORT_WS_PROTOCOL)"
  "CHR '','' \<notin> set GRAPHQL_TRANSPORT_WS_PROTOCOL"
  by (simp_all add: GRAPHQL_TRANSPORT_WS_PROTOCOL_def is_space_def)

text \<open>
  Claim C2.  \<open>handleProtocols\<close> returns the token \<open>graphql-transport-ws\<close> exactly when its
  argument is a set of strings that has the token as a member, an array of strings that has
  it as a member, or a string that has it as a member once split at the commas and trimmed;
  for anything else (an object, a number, a boolean, \<open>null\<close>, \<open>undefined\<close>, a function, or a
  collection without the very token) it returns the no-match value.  Said without the two
  functions, the string form matches exactly when the token stands in the string between
  two commas, or an end of the string, with nothing but white space around it.
\<close>

theorem handleProtocols_selects_exact_member:
  "(handleProtocols x = Some GRAPHQL_TRANSPORT_WS_PROTOCOL \<longleftrightarrow>
      (case x of
         ProtocolSet offered \<Rightarrow> GRAPHQL_TRANSPORT_WS_PROTOCOL \<in> offered
       | ProtocolArray offered \<Rightarrow> GRAPHQL_TRANSPORT_WS_PROTOCOL \<in> set offered
       | ProtocolString offered \<Rightarrow>
           GRAPHQL_TRANSPORT_WS_PROTOCOL \<in> set (map trim (split_commas offered))
       | NoProtocols other \<Rightarrow> False)) \<and>
   (handleProtocols x \<noteq> Some GRAPHQL_TRANSPORT_WS_PROTOCOL \<longrightarrow> handleProtocols x = None) \<and>
   (handleProtocols (ProtocolString s) = Some GRAPHQL_TRANSPORT_WS_PROTOCOL \<longleftrightarrow>
      token_between_commas GRAPHQL_TRANSPORT_WS_PROTOCOL s)"
proof -
  have "handleProtocols (ProtocolString s) = Some GRAPHQL_TRANSPORT_WS_PROTOCOL \<longleftrightarrow>
      token_between_commas GRAPHQL_TRANSPORT_WS_PROTOCOL s"
    using token_member_iff [OF protocol_token, of s] by simp
  moreover have "handleProtocols x = Some GRAPHQL_TRANSPORT_WS_PROTOCOL \<longleftrightarrow>
      (case x of
         ProtocolSet offered \<Rightarrow> GRAPHQL_TRANSPORT_WS_PROTOCOL \<in> offered
       | ProtocolArray offered \<Rightarrow> GRAPHQL_TRANSPORT_WS_PROTOCOL \<in> set offered
       | ProtocolString offered \<Rightarrow>
           GRAPHQL_TRANSPORT_WS_PROTOCOL \<in> set (map trim (split_commas offered))
       | NoProtocols other \<Rightarrow> False)"
    by (cases x) simp_all
  moreover have "handleProtocols x \<noteq> Some GRAPHQL_TRANSPORT_WS_PROTOCOL \<longrightarrow>
      handleProtocols x = None"
    by (cases x) simp_all
  ultimately show ?thesis by (intro conjI)
qed

theorem handleProtocols_selects_exact_member_witness:
  "handleProtocols (ProtocolSet {''not'', ''me''}) = None \<and>
   handleProtocols (ProtocolSet {''maybe'', ''me'', ''graphql-transport-wsnah''}) = None \<and>
   handleProtocols (ProtocolSet {''almost'', ''next'', ''graphql-transport-ws'', ''one''}) =
     Some ''graphql-transport-ws'' \<and>
   handleProtocols (ProtocolArray [[]]) = None \<and>
   handleProtocols (ProtocolArray [''123'', ''graphql-transport-ws'']) =
     Some ''graphql-transport-ws'' \<and>
   handleProtocols (ProtocolArray [''graphql-transport-ws'', ''graphql-transport-ws'']) =
     Some ''graphql-transport-ws'' \<and>
   handleProtocols (ProtocolString ''some, graphql-transport-ws   , other-one,third'') =
     Some ''graphql-transport-ws'' \<and>
   handleProtocols (ProtocolString ''no, graphql-TransPort-ws'') = None \<and>
   handleProtocols (NoProtocols AnObject) = None \<and>
   handleProtocols (NoProtocols ANumber) = None \<and>
   handleProtocols (NoProtocols Null) = None \<and>
   handleProtocols (NoProtocols Undefined) = None \<and>
   handleProtocols (NoProtocols AFunction) = None"
proof -
  note selected = handleProtocols_selects_exact_member [THEN conjunct1]
  note other = handleProtocols_selects_exact_member [THEN conjunct2, THEN conjunct1, rule_format]
  have m1: "GRAPHQL_TRANSPORT_WS_PROTOCOL \<in>
      set (map trim (split_commas ''some, graphql-transport-ws   , other-one,third''))"
    by (simp add: GRAPHQL_TRANSPORT_WS_PROTOCOL_def trim_def is_space_def)
  have m2: "GRAPHQL_TRANSPORT_WS_PROTOCOL \<notin>
      set (map trim (split_commas ''no, graphql-TransPort-ws''))"
    by (simp add: GRAPHQL_TRANSPORT_WS_PROTOCOL_def trim_def is_space_def)
  have "handleProtocols (ProtocolSet {''not'', ''me''}) = None"
    using selected [of "ProtocolSet {''not'', ''me''}"]
    by (intro other) (simp add: GRAPHQL_TRANSPORT_WS_PROTOCOL_def)
  moreover have "handleProtocols (ProtocolSet {''maybe'', ''me'', ''graphql-transport-wsnah''}) = None"
    using selected [of "ProtocolSet {''maybe'', ''me'', ''graphql-transport-wsnah''}"]
    by (intro other) (simp add: GRAPHQL_TRANSPORT_WS_PROTOCOL_def)
  moreover have "handleProtocols
      (ProtocolSet {''almost'', ''next'', ''graphql-transport-ws'', ''one''}) =
     Some ''graphql-transport-ws''"
    using selected [of "ProtocolSet {''almost'', ''next'', ''graphql-transport-ws'', ''one''}"]
    by (simp add: GRAPHQL_TRANSPORT_WS_PROTOCOL_def)
  moreover have "handleProtocols (ProtocolArray [[]]) = None"
    using selected [of "ProtocolArray [[]]"]
    by (intro other) (simp add: GRAPHQL_TRANSPORT_WS_PROTOCOL_def)
  moreover have "handleProtocols (ProtocolArray [''123'', ''graphql-transport-ws'']) =
     Some ''graphql-transport-ws''"
    using selected [of "ProtocolArray [''123'', ''graphql-transport-ws'']"]
    by (simp add: GRAPHQL_TRANSPORT_WS_PROTOCOL_def)
  moreover have "handleProtocols
      (ProtocolArray [''graphql-transport-ws'', ''graphql-transport-ws'']) =
     Some ''graphql-transport-ws''"
    using selected [of "ProtocolArray [''graphql-transport-ws'', ''graphql-transport-ws'']"]
    by (simp add: GRAPHQL_TRANSPORT_WS_PROTOCOL_def)
  moreover have "handleProtocols
      (ProtocolString ''some, graphql-transport-ws   , other-one,third'') =
     Some ''graphql-transport-ws''"
    using selected [of "ProtocolString ''some, graphql-transport-ws   , other-one,third''"] m1
    by (simp add: GRAPHQL_TRANSPORT_WS_PROTOCOL_def)
  moreover have "handleProtocols (ProtocolString ''no, graphql-TransPort-ws'') = None"
    using selected [of "ProtocolString ''no, graphql-TransPort-ws''"] m2
    by (intro other) simp
  moreover have "handleProtocols (NoProtocols AnObject) = None"
    using selected [of "NoProtocols AnObject"] by (intro other) simp
  moreover have "handleProtocols (NoProtocols ANumber) = None"
    using selected [of "NoProtocols ANumber"] by (intro other) simp
  moreover have "handleProtocols (NoProtocols Null) = None"
    using selected [of "NoProtocols Null"] by (intro other) simp
  moreover have "handleProtocols (NoProtocols Undefined) = None"
    using selected [of "NoProtocols Undefined"] by (intro other) simp
  moreover have "handleProtocols (NoProtocols AFunction) = None"
    using selected [of "NoProtocols AFunction"] by (intro other) simp
  ultimately show ?thesis by (intro conjI)
qed

subsection \<open>Subscriptions\<close>

lemma handle_all_Cons:
  "fst (handle_all (e # es) ctx) = fst (handle_all es (fst (handle e ctx)))"
  "snd (handle_all (e # es) ctx) = snd (handle e ctx) @ snd (handle_all es (fst (handle e ctx)))"
  by (simp_all add: case_prod_beta)

lemma acknowledged_or_empty_handle:
  assumes "acknowledged ctx \<or> subscriptions ctx = Map.empty"
  shows "acknowledged (fst (handle e ctx)) \<or> subscriptions (fst (handle e ctx)) = Map.empty"
proof (cases e)
  case (ConnectionInit answer)
  then show ?thesis using assms by (cases answer) auto
next
  case (Subscribe oid)
  then show ?thesis using assms
    by (auto simp add: reserve_def split: option.splits registry_error.splits)
next
  case (Prepared oid answer)
  then show ?thesis using assms by (auto simp add: drop_entry_def install_def split: option.splits)
next
  case (ProducerEmits oid payload)
  then show ?thesis using assms by auto
next
  case (StartResolved oid answer)
  then show ?thesis using assms by (auto simp add: drop_entry_def)
next
  case (StartRejected oid reason)
  then show ?thesis using assms by (auto simp add: drop_entry_def)
next
  case (ClientComplete oid)
  then show ?thesis using assms by (auto simp add: drop_entry_def)
qed

lemma acknowledged_or_empty_handle_all:
  "acknowledged ctx \<or> subscriptions ctx = Map.empty \<Longrightarrow>
   acknowledged (fst (handle_all es ctx)) \<or> subscriptions (fst (handle_all es ctx)) = Map.empty"
proof (induction es arbitrary: ctx)
  case Nil
  then show ?case by simp
next
  case (Cons e es)
  from Cons.prems have "acknowledged (fst (handle e ctx)) \<or>
      subscriptions (fst (handle e ctx)) = Map.empty"
    by (rule acknowledged_or_empty_handle)
  then show ?case unfolding handle_all_Cons by (rule Cons.IH)
qed

lemma acknowledged_if_subscribed:
  "subscriptions (fst (handle_all es opened)) oid = Some e \<Longrightarrow>
   acknowledged (fst (handle_all es opened))"
  using acknowledged_or_empty_handle_all [of opened es] by (auto simp add: opened_def)

text \<open>
  Claim C1.  Take any connection, after anything that reached it (\<open>ctx\<close>), and an operation id
  the registry holds, be the entry a reservation or a running producer.  A \<open>subscribe\<close> with
  that id fails to reserve (DUPLICATE), closes with 4409 and the reason
  \<open>Subscriber for <id> already exists\<close>, and leaves the context, the registry with it, as it
  was.
\<close>

theorem duplicate_subscribe_closes_4409:
  "let ctx = fst (handle_all es opened) in
   subscriptions ctx oid = Some e \<longrightarrow>
     (e = Reservation \<or> e = RunningProducer) \<and>
     reserve oid (subscriptions ctx) = Inl DUPLICATE \<and>
     handle (Subscribe oid) ctx =
       (ctx, [Close 4409 (''Subscriber for '' @ oid @ '' already exists'')])"
proof -
  have "handle (Subscribe oid) (fst (handle_all es opened)) =
       (fst (handle_all es opened),
        [Close 4409 (''Subscriber for '' @ oid @ '' already exists'')])"
    and "reserve oid (subscriptions (fst (handle_all es opened))) = Inl DUPLICATE"
    and "e = Reservation \<or> e = RunningProducer"
    if held: "subscriptions (fst (handle_all es opened)) oid = Some e"
  proof -
    show dup: "reserve oid (subscriptions (fst (handle_all es opened))) = Inl DUPLICATE"
      using held by (simp add: reserve_def)
    show "handle (Subscribe oid) (fst (handle_all es opened)) =
       (fst (handle_all es opened),
        [Close 4409 (''Subscriber for '' @ oid @ '' already exists'')])"
      using acknowledged_if_subscribed [OF held] dup by simp
    show "e = Reservation \<or> e = RunningProducer" by (cases e) simp_all
  qed
  then show ?thesis unfolding Let_def by (intro impI conjI)
qed

theorem duplicate_subscribe_closes_4409_witness:
  "subscriptions (fst (handle_all [ConnectionInit (Accept None), Subscribe ''not-unique''] opened))
     ''not-unique'' = Some Reservation \<and>
   snd (handle (Subscribe ''not-unique'')
          (fst (handle_all [ConnectionInit (Accept None), Subscribe ''not-unique''] opened))) =
     [Close 4409 ''Subscriber for not-unique already exists''] \<and>
   subscriptions (fst (handle_all [ConnectionInit (Accept None), Subscribe ''not-unique'',
                                   Prepared ''not-unique'' None] opened))
     ''not-unique'' = Some RunningProducer \<and>
   snd (handle (Subscribe ''not-unique'')
          (fst (handle_all [ConnectionInit (Accept None), Subscribe ''not-unique'',
                            Prepared ''not-unique'' None] opened))) =
     [Close 4409 ''Subscriber for not-unique already exists'']"
proof -
  note dup = duplicate_subscribe_closes_4409 [unfolded Let_def, rule_format]
  have reserved: "subscriptions
      (fst (handle_all [ConnectionInit (Accept None), Subscribe ''not-unique''] opened))
     ''not-unique'' = Some Reservation"
    by (simp add: opened_def reserve_def)
  have running: "subscriptions
      (fst (handle_all [ConnectionInit (Accept None), Subscribe ''not-unique'',
                                   Prepared ''not-unique'' None] opened))
     ''not-unique'' = Some RunningProducer"
    by (simp add: opened_def reserve_def install_def)
  have "snd (handle (Subscribe ''not-unique'')
          (fst (handle_all [ConnectionInit (Accept None), Subscribe ''not-unique''] opened))) =
     [Close 4409 ''Subscriber for not-unique already exists'']"
    using dup [OF reserved, THEN conjunct2, THEN conjunct2] by simp
  moreover have "snd (handle (Subscribe ''not-unique'')
          (fst (handle_all [ConnectionInit (Accept None), Subscribe ''not-unique'',
                            Prepared ''not-unique'' None] opened))) =
     [Close 4409 ''Subscriber for not-unique already exists'']"
    using dup [OF running, THEN conjunct2, THEN conjunct2] by simp
  ultimately show ?thesis using reserved running by (intro conjI)
qed


lemma quiet_handle:
  assumes "subscriptions ctx oid = None" and "e \<noteq> Subscribe oid"
  shows "subscriptions (fst (handle e ctx)) oid = None"
    and "filter (outbound_for oid) (snd (handle e ctx)) = []"
proof -
  show "subscriptions (fst (handle e ctx)) oid = None"
  proof (cases e)
    case (ConnectionInit answer)
    then show ?thesis using assms by (cases answer) auto
  next
    case (Subscribe other)
    then show ?thesis using assms
      by (auto simp add: reserve_def split: option.splits registry_error.splits)
  next
    case (Prepared other answer)
    then show ?thesis using assms
      by (auto simp add: drop_entry_def install_def split: option.splits)
  next
    case (ProducerEmits other payload)
    then show ?thesis using assms by auto
  next
    case (StartResolved other answer)
    then show ?thesis using assms by (auto simp add: drop_entry_def)
  next
    case (StartRejected other reason)
    then show ?thesis using assms by (auto simp add: drop_entry_def)
  next
    case (ClientComplete other)
    then show ?thesis using assms by (auto simp add: drop_entry_def)
  qed
  show "filter (outbound_for oid) (snd (handle e ctx)) = []"
  proof (cases e)
    case (ConnectionInit answer)
    then show ?thesis by (cases answer) auto
  next
    case (Subscribe other)
    then show ?thesis
      by (auto simp add: reserve_def split: option.splits registry_error.splits)
  next
    case (Prepared other answer)
    then show ?thesis using assms by (auto split: option.splits)
  next
    case (ProducerEmits other payload)
    then show ?thesis using assms by auto
  next
    case (StartResolved other answer)
    then show ?thesis using assms by (auto split: option.splits)
  next
    case (StartRejected other reason)
    then show ?thesis by auto
  next
    case (ClientComplete other)
    then show ?thesis by auto
  qed
qed

lemma quiet_handle_all:
  "subscriptions ctx oid = None \<Longrightarrow> Subscribe oid \<notin> set es \<Longrightarrow>
   subscriptions (fst (handle_all es ctx)) oid = None \<and>
   filter (outbound_for oid) (snd (handle_all es ctx)) = []"
proof (induction es arbitrary: ctx)
  case Nil
  then show ?case by simp
next
  case (Cons e es)
  from Cons.prems have ne: "e \<noteq> Subscribe oid" and rest: "Subscribe oid \<notin> set es" by auto
  note q = quiet_handle [OF Cons.prems(1) ne]
  from Cons.IH [OF q(1) rest] q(2) show ?case
    unfolding handle_all_Cons by simp
qed

text \<open>
  Claim C4.  A client's \<open>complete\<close> for an id whose producer is running drops the entry,
  invokes the producer's \<open>stop\<close> and awaits it, and emits nothing (for an id that is only
  reserved it drops the entry and that is all).  Whatever reaches the orchestrator
  afterwards, short of a new \<open>subscribe\<close> with that id (the producer's \<open>start\<close> resolving or
  rejecting at last, the producer emitting), no message for the id is emitted, no \<open>complete\<close>
  in particular, and the registry does not hold the id.
\<close>

theorem client_complete_is_not_answered:
  "(subscriptions ctx oid = Some RunningProducer \<longrightarrow>
      handle (ClientComplete oid) ctx =
        (ctx\<lparr>subscriptions := (subscriptions ctx)(oid := None)\<rparr>,
         [InvokeStop oid, AwaitStop oid])) \<and>
   (subscriptions ctx oid = Some Reservation \<longrightarrow>
      handle (ClientComplete oid) ctx =
        (ctx\<lparr>subscriptions := (subscriptions ctx)(oid := None)\<rparr>, [])) \<and>
   (Subscribe oid \<notin> set later \<longrightarrow>
      filter (outbound_for oid) (snd (handle_all (ClientComplete oid # later) ctx)) = [] \<and>
      subscriptions (fst (handle_all (ClientComplete oid # later) ctx)) oid = None)"
proof (intro conjI impI)
  assume "subscriptions ctx oid = Some RunningProducer"
  then show "handle (ClientComplete oid) ctx =
        (ctx\<lparr>subscriptions := (subscriptions ctx)(oid := None)\<rparr>,
         [InvokeStop oid, AwaitStop oid])"
    by (simp add: drop_entry_def)
next
  assume "subscriptions ctx oid = Some Reservation"
  then show "handle (ClientComplete oid) ctx =
        (ctx\<lparr>subscriptions := (subscriptions ctx)(oid := None)\<rparr>, [])"
    by (simp add: drop_entry_def)
next
  assume later: "Subscribe oid \<notin> set later"
  have dropped: "subscriptions (fst (handle (ClientComplete oid) ctx)) oid = None"
    by (simp add: drop_entry_def)
  have silent: "filter (outbound_for oid) (snd (handle (ClientComplete oid) ctx)) = []"
    by simp
  note q = quiet_handle_all [OF dropped later]
  show "filter (outbound_for oid) (snd (handle_all (ClientComplete oid # later) ctx)) = []"
    unfolding handle_all_Cons using silent q by simp
  show "subscriptions (fst (handle_all (ClientComplete oid # later) ctx)) oid = None"
    unfolding handle_all_Cons using q by simp
qed

theorem client_complete_is_not_answered_witness:
  "subscriptions (fst (handle_all [ConnectionInit (Accept None), Subscribe ''1'',
                                   Prepared ''1'' None] opened)) ''1'' = Some RunningProducer \<and>
   snd (handle (ClientComplete ''1'')
          (fst (handle_all [ConnectionInit (Accept None), Subscribe ''1'',
                            Prepared ''1'' None] opened))) = [InvokeStop ''1'', AwaitStop ''1''] \<and>
   filter (outbound_for ''1'')
     (snd (handle_all [ClientComplete ''1'', StartResolved ''1'' None, ProducerEmits ''1'' ''pong'']
             (fst (handle_all [ConnectionInit (Accept None), Subscribe ''1'',
                               Prepared ''1'' None] opened)))) = [] \<and>
   snd (handle_all [StartResolved ''1'' None]
          (fst (handle_all [ConnectionInit (Accept None), Subscribe ''1'',
                            Prepared ''1'' None] opened))) = [Emit (Complete ''1'')]"
proof -
  note stopped = client_complete_is_not_answered [THEN conjunct1, rule_format]
  note silent = client_complete_is_not_answered [THEN conjunct2, THEN conjunct2, rule_format,
      THEN conjunct1]
  have running: "subscriptions (fst (handle_all [ConnectionInit (Accept None), Subscribe ''1'',
                                   Prepared ''1'' None] opened)) ''1'' = Some RunningProducer"
    by (simp add: opened_def reserve_def install_def)
  have "snd (handle (ClientComplete ''1'')
          (fst (handle_all [ConnectionInit (Accept None), Subscribe ''1'',
                            Prepared ''1'' None] opened))) = [InvokeStop ''1'', AwaitStop ''1'']"
    using stopped [OF running] by simp
  moreover have "filter (outbound_for ''1'')
     (snd (handle_all [ClientComplete ''1'', StartResolved ''1'' None, ProducerEmits ''1'' ''pong'']
             (fst (handle_all [ConnectionInit (Accept None), Subscribe ''1'',
                               Prepared ''1'' None] opened)))) = []"
    by (rule silent) simp
  moreover have "snd (handle_all [StartResolved ''1'' None]
          (fst (handle_all [ConnectionInit (Accept None), Subscribe ''1'',
                            Prepared ''1'' None] opened))) = [Emit (Complete ''1'')]"
    by (simp add: opened_def reserve_def install_def drop_entry_def)
  ultimately show ?thesis using running by (intro conjI)
qed


lemma closed_callback_subscriptions:
  "subscriptions (fst (closed_callback ids ctx)) k =
     (if k \<in> set ids then None else subscriptions ctx k)"
  by (induction ids arbitrary: ctx) (simp_all add: case_prod_beta drop_entry_def)

lemma adapter_catch_eq:
  "adapter_catch node_env lcr reason =
     Some (4500, close_reason node_env lcr (ErrorObj (Error reason)))"
  by (simp add: adapter_catch_def message_handler_def InternalServerError_def)

lemma serve_keeps_dropped:
  "subscriptions (fst (handle e ctx)) k = None \<Longrightarrow>
   subscriptions (fst (serve socket caller snapshot e ctx)) k = None"
  by (simp add: serve_def Let_def case_prod_beta closed_callback_subscriptions)

lemma serve_all_Cons:
  "fst (serve_all socket caller snapshot (e # es) ctx) =
     fst (serve_all socket caller snapshot es (fst (serve socket caller snapshot e ctx)))"
  by (simp add: case_prod_beta)

lemma serve_all_keeps_dropped:
  "subscriptions ctx oid = None \<Longrightarrow> Subscribe oid \<notin> set es \<Longrightarrow>
   subscriptions (fst (serve_all socket caller snapshot es ctx)) oid = None"
proof (induction es arbitrary: ctx)
  case Nil
  then show ?case by simp
next
  case (Cons e es)
  from Cons.prems have ne: "e \<noteq> Subscribe oid" and rest: "Subscribe oid \<notin> set es" by auto
  have "subscriptions (fst (serve socket caller snapshot e ctx)) oid = None"
    using quiet_handle(1) [OF Cons.prems(1) ne] by (rule serve_keeps_dropped)
  from Cons.IH [OF this rest] show ?case unfolding serve_all_Cons .
qed

lemma perform_rejection:
  "perform socket (if held then [Reject reason] else []) =
     ([], if held then Some reason else None, False)"
  by simp

lemma serve_rejection:
  "serve socket caller snapshot (StartRejected oid reason) ctx =
     (let dropped = ctx\<lparr>subscriptions := (subscriptions ctx)(oid := None)\<rparr>;
          reaction = (if subscriptions ctx oid \<noteq> None then caller reason else None)
      in ((case reaction of
             None \<Rightarrow> dropped
           | Some (code, why) \<Rightarrow>
               if sock_close socket code why then fst (closed_callback snapshot dropped)
               else dropped),
          (case reaction of None \<Rightarrow> [] | Some (code, why) \<Rightarrow> [Closes code why]),
          (if subscriptions ctx oid \<noteq> None then Some reason else None)))"
  by (simp add: serve_def Let_def drop_entry_def split: option.splits)

text \<open>
  Claim C5.  Take any socket (one whose \<open>send\<close> and \<open>close\<close> do nothing among them), any
  caller of the message callback (one that closes on a rejection, as the ws adapter does,
  or one that only catches, as the repository's test does), any snapshot for the close
  pipeline and any context.  When a producer's \<open>start\<close> rejects:
  \<^item> the registry afterwards does not hold the id, and does not hold it after anything
    that follows short of a new \<open>subscribe\<close> with the id;
  \<^item> if the id was the only entry, the registry is empty;
  \<^item> if the registry still held the id, the callback rejects with the error, and the only
    call made on the socket is the caller's \<open>close\<close>, if it makes one: the server itself
    calls neither \<open>send\<close> nor \<open>close\<close>;
  \<^item> if the caller does not close, or the socket's \<open>close\<close> closes nothing, so that the
    close pipeline is not reached, the context afterwards is the context before without
    the id: the entry has been dropped all the same.
\<close>

theorem start_rejection_drops_entry:
  "let after = serve socket caller snapshot (StartRejected oid reason) ctx in
   subscriptions (fst after) oid = None \<and>
   (Subscribe oid \<notin> set later \<longrightarrow>
      subscriptions (fst (serve_all socket caller snapshot later (fst after))) oid = None) \<and>
   (dom (subscriptions ctx) \<subseteq> {oid} \<longrightarrow> subscriptions (fst after) = Map.empty) \<and>
   (subscriptions ctx oid \<noteq> None \<longrightarrow>
      snd (snd after) = Some reason \<and>
      fst (snd after) =
        (case caller reason of None \<Rightarrow> [] | Some (code, why) \<Rightarrow> [Closes code why])) \<and>
   (caller reason = None \<or> (\<forall>code why. \<not> sock_close socket code why) \<longrightarrow>
      fst after = ctx\<lparr>subscriptions := (subscriptions ctx)(oid := None)\<rparr>)"
proof -
  define after where "after = serve socket caller snapshot (StartRejected oid reason) ctx"
  have dropped: "subscriptions (fst (handle (StartRejected oid reason) ctx)) oid = None"
    by (simp add: drop_entry_def)
  have gone: "subscriptions (fst after) oid = None"
    unfolding after_def using dropped by (rule serve_keeps_dropped)
  have stays: "subscriptions (fst (serve_all socket caller snapshot later (fst after))) oid = None"
    if "Subscribe oid \<notin> set later"
    using gone that by (rule serve_all_keeps_dropped)
  have empty: "subscriptions (fst after) = Map.empty" if only: "dom (subscriptions ctx) \<subseteq> {oid}"
  proof
    fix k
    have "subscriptions (fst (handle (StartRejected oid reason) ctx)) k = None"
      using only by (cases "k = oid") (auto simp add: drop_entry_def)
    then show "subscriptions (fst after) k = Map.empty k"
      unfolding after_def by (simp add: serve_keeps_dropped)
  qed
  have settled: "snd (snd after) = Some reason \<and>
      fst (snd after) =
        (case caller reason of None \<Rightarrow> [] | Some (code, why) \<Rightarrow> [Closes code why])"
    if "subscriptions ctx oid \<noteq> None"
    unfolding after_def serve_rejection using that by (simp add: Let_def)
  have unreached: "fst after = ctx\<lparr>subscriptions := (subscriptions ctx)(oid := None)\<rparr>"
    if "caller reason = None \<or> (\<forall>code why. \<not> sock_close socket code why)"
    unfolding after_def serve_rejection using that
    by (auto simp add: Let_def split: option.splits)
  show ?thesis
    unfolding Let_def after_def [symmetric]
    using gone stays empty settled unreached by blast
qed

theorem start_rejection_drops_entry_witness:
  "subscriptions
     (fst (serve_all noop_socket (\<lambda>reason. None) []
             [ConnectionInit (Accept None), Subscribe ''1'', Prepared ''1'' None] opened))
     ''1'' = Some RunningProducer \<and>
   fst (snd (serve_all noop_socket (\<lambda>reason. None) []
               [ConnectionInit (Accept None), Subscribe ''1'', Prepared ''1'' None] opened)) =
     [Sends (ConnectionAck None)] \<and>
   subscriptions
     (fst (serve noop_socket (\<lambda>reason. None) [] (StartRejected ''1'' ''undefined'')
             (fst (serve_all noop_socket (\<lambda>reason. None) []
                     [ConnectionInit (Accept None), Subscribe ''1'', Prepared ''1'' None]
                     opened)))) = Map.empty \<and>
   snd (serve noop_socket (\<lambda>reason. None) [] (StartRejected ''1'' ''undefined'')
          (fst (serve_all noop_socket (\<lambda>reason. None) []
                  [ConnectionInit (Accept None), Subscribe ''1'', Prepared ''1'' None]
                  opened))) = ([], Some ''undefined'') \<and>
   subscriptions
     (fst (serve \<lparr>sock_send = (\<lambda>m. None), sock_close = (\<lambda>code why. True)\<rparr>
             (adapter_catch None (\<lambda>r w. r)) [''1''] (StartRejected ''1'' ''undefined'')
             (fst (serve_all noop_socket (\<lambda>reason. None) []
                     [ConnectionInit (Accept None), Subscribe ''1'', Prepared ''1'' None]
                     opened)))) = Map.empty \<and>
   snd (serve \<lparr>sock_send = (\<lambda>m. None), sock_close = (\<lambda>code why. True)\<rparr>
          (adapter_catch None (\<lambda>r w. r)) [''1''] (StartRejected ''1'' ''undefined'')
          (fst (serve_all noop_socket (\<lambda>reason. None) []
                  [ConnectionInit (Accept None), Subscribe ''1'', Prepared ''1'' None]
                  opened))) = ([Closes 4500 ''undefined''], Some ''undefined'')"
proof -
  define ctx where "ctx = fst (serve_all noop_socket (\<lambda>reason. None) []
      [ConnectionInit (Accept None), Subscribe ''1'', Prepared ''1'' None] opened)"
  have reg: "subscriptions ctx = [''1'' \<mapsto> RunningProducer]"
    unfolding ctx_def
    by (simp add: serve_def noop_socket_def opened_def reserve_def install_def Let_def)
  have running: "subscriptions ctx ''1'' = Some RunningProducer"
    by (simp add: reg)
  have held: "subscriptions ctx ''1'' \<noteq> None"
    by (simp add: reg)
  have only: "dom (subscriptions ctx) \<subseteq> {''1''}"
    by (simp add: reg)
  have calls: "fst (snd (serve_all noop_socket (\<lambda>reason. None) []
               [ConnectionInit (Accept None), Subscribe ''1'', Prepared ''1'' None] opened)) =
     [Sends (ConnectionAck None)]"
    by (simp add: serve_def noop_socket_def opened_def reserve_def install_def Let_def)
  note bare = start_rejection_drops_entry [where socket = noop_socket
      and caller = "\<lambda>reason. None" and snapshot = "[]" and oid = "''1''"
      and reason = "''undefined''" and ctx = ctx, unfolded Let_def]
  note ws = start_rejection_drops_entry [where
      socket = "\<lparr>sock_send = (\<lambda>m. None), sock_close = (\<lambda>code why. True)\<rparr>"
      and caller = "adapter_catch None (\<lambda>r w. r)" and snapshot = "[''1'']" and oid = "''1''"
      and reason = "''undefined''" and ctx = ctx, unfolded Let_def]
  have caught: "adapter_catch None (\<lambda>r w. r) ''undefined'' = Some (4500, ''undefined'')"
    by (simp add: adapter_catch_eq close_reason_def isProd_def)
  have b1: "subscriptions
     (fst (serve noop_socket (\<lambda>reason. None) [] (StartRejected ''1'' ''undefined'') ctx)) =
     Map.empty"
    using bare [THEN conjunct2, THEN conjunct2, THEN conjunct1, rule_format, OF only] .
  have b2: "snd (serve noop_socket (\<lambda>reason. None) [] (StartRejected ''1'' ''undefined'') ctx) =
     ([], Some ''undefined'')"
    using bare [THEN conjunct2, THEN conjunct2, THEN conjunct2, THEN conjunct1, rule_format,
        OF held]
    by (simp add: prod_eq_iff)
  have w1: "subscriptions
     (fst (serve \<lparr>sock_send = (\<lambda>m. None), sock_close = (\<lambda>code why. True)\<rparr>
             (adapter_catch None (\<lambda>r w. r)) [''1''] (StartRejected ''1'' ''undefined'') ctx)) =
     Map.empty"
    using ws [THEN conjunct2, THEN conjunct2, THEN conjunct1, rule_format, OF only] .
  have w2: "snd (serve \<lparr>sock_send = (\<lambda>m. None), sock_close = (\<lambda>code why. True)\<rparr>
          (adapter_catch None (\<lambda>r w. r)) [''1''] (StartRejected ''1'' ''undefined'') ctx) =
     ([Closes 4500 ''undefined''], Some ''undefined'')"
    using ws [THEN conjunct2, THEN conjunct2, THEN conjunct2, THEN conjunct1, rule_format,
        OF held]
    by (simp add: prod_eq_iff caught)
  from running calls b1 b2 w1 w2 show ?thesis
    unfolding ctx_def by (intro conjI)
qed

end
